theory Spec2Isabelle
  imports Main "HOL-Library.Word" "HOL-Library.Sublist"
begin

section \<open>Strings\<close>

text \<open>
  A JavaScript string is a sequence of 16-bit code units, and a regular expression
  without the \<^verbatim>\<open>u\<close> flag works on code units. The embedding keeps both: every
  character class below is a predicate on one code unit.
\<close>

type_synonym code_unit = "16 word"
type_synonym jsstring = "code_unit list"

text \<open>ASCII literals of the source, written as Isabelle strings.\<close>

definition js :: "string \<Rightarrow> jsstring" where
  "js s = map (\<lambda>c. of_nat (of_char c)) s"

text \<open>
  The class \<^verbatim>\<open>\s\<close> of ECMAScript: TAB, LF, VT, FF, CR, SP, NBSP, U+1680,
  U+2000..U+200A, LS, PS, U+202F, U+205F, U+3000 and the byte order mark.
\<close>

definition isSpace :: "code_unit \<Rightarrow> bool" where
  "isSpace c \<longleftrightarrow>
     c = 0x09 \<or> c = 0x0A \<or> c = 0x0B \<or> c = 0x0C \<or> c = 0x0D \<or> c = 0x20 \<or> c = 0xA0 \<or>
     c = 0x1680 \<or> (0x2000 \<le> c \<and> c \<le> 0x200A) \<or> c = 0x2028 \<or> c = 0x2029 \<or>
     c = 0x202F \<or> c = 0x205F \<or> c = 0x3000 \<or> c = 0xFEFF"

definition hash :: code_unit where
  "hash = 0x23"

definition backtick :: code_unit where
  "backtick = 0x60"

text \<open>The three backticks that open and close a fenced code block.\<close>

definition fence :: jsstring where
  "fence = [backtick, backtick, backtick]"

section \<open>Hashtag extraction (note.ts, extractHashtags)\<close>

subsection \<open>Removing fenced code blocks\<close>

text \<open>
  \<^verbatim>\<open>input.replace(/```[\s\S]*?```/g, '')\<close>. After the opening fence the lazy
  \<^verbatim>\<open>[\s\S]*?\<close> takes as few code units as possible, so the match ends at the first
  closing fence that follows; \<open>closeFence\<close> returns what is left after it, or
  \<open>None\<close> when no closing fence follows.
\<close>

fun closeFence :: "jsstring \<Rightarrow> jsstring option" where
  "closeFence [] = None"
| "closeFence (c # cs) =
     (if prefix fence (c # cs) then Some (drop 3 (c # cs)) else closeFence cs)"

definition matchFence :: "jsstring \<Rightarrow> jsstring option" where
  "matchFence s = (if prefix fence s then closeFence (drop 3 s) else None)"

lemma closeFence_length: "closeFence s = Some r \<Longrightarrow> length r < length s"
  by (induction s) (auto split: if_splits)

lemma matchFence_length: "matchFence s = Some r \<Longrightarrow> length r < length s"
  by (auto simp: matchFence_def split: if_splits dest!: closeFence_length)

text \<open>
  The global replace tries a match at each position from the left: where one is found
  the matched text is dropped and the search goes on after it, otherwise the code unit
  is copied.
\<close>

function stripFences :: "jsstring \<Rightarrow> jsstring" where
  "stripFences [] = []"
| "stripFences (c # cs) =
     (case matchFence (c # cs) of
        Some rest \<Rightarrow> stripFences rest
      | None \<Rightarrow> c # stripFences cs)"
  by pat_completeness auto
termination
  by (relation "measure length") (auto dest: matchFence_length)

subsection \<open>Matching the hashtags\<close>

text \<open>
  \<^verbatim>\<open>/(?<!:\/\/)(?<=\s|^)#[^\s#]+(?=\s|$)/g\<close>, without the \<^verbatim>\<open>m\<close> flag, so
  \<^verbatim>\<open>^\<close> and \<^verbatim>\<open>$\<close> are the two ends of the string. \<open>lookbehind s i\<close> holds the
  two assertions of the pattern before position \<open>i\<close>.
\<close>

definition colonSlashSlash :: jsstring where
  "colonSlashSlash = [0x3A, 0x2F, 0x2F]"

definition lookbehind :: "jsstring \<Rightarrow> nat \<Rightarrow> bool" where
  "lookbehind s i \<longleftrightarrow>
     \<not> (3 \<le> i \<and> take 3 (drop (i - 3) s) = colonSlashSlash) \<and>
     (i = 0 \<or> isSpace (s ! (i - 1)))"

definition tagChar :: "code_unit \<Rightarrow> bool" where
  "tagChar c \<longleftrightarrow> \<not> isSpace c \<and> c \<noteq> hash"

text \<open>
  \<open>matchAt s i\<close> is the end of the match that starts at position \<open>i\<close>. The greedy
  \<^verbatim>\<open>[^\s#]+\<close> takes the whole run of tag characters; a shorter run is followed by
  a tag character, which the lookahead refuses, so backtracking finds nothing else.
\<close>

definition matchAt :: "jsstring \<Rightarrow> nat \<Rightarrow> nat option" where
  "matchAt s i =
     (if lookbehind s i \<and> i < length s \<and> s ! i = hash then
        (let n = length (takeWhile tagChar (drop (i + 1) s)); e = i + 1 + n
         in if 1 \<le> n \<and> (e = length s \<or> isSpace (s ! e)) then Some e else None)
      else None)"

lemma matchAt_greater: "matchAt s i = Some e \<Longrightarrow> i < e \<and> e \<le> length s"
proof -
  assume m: "matchAt s i = Some e"
  have "length (takeWhile tagChar (drop (i + 1) s)) \<le> length (drop (i + 1) s)"
    by (rule length_takeWhile_le)
  with m show ?thesis
    by (auto simp: matchAt_def Let_def split: if_splits)
qed

text \<open>
  \<^verbatim>\<open>String.prototype.match\<close> with a global pattern: all matches from the left, each
  search starting where the last match ended.
\<close>

function matchAllFrom :: "jsstring \<Rightarrow> nat \<Rightarrow> jsstring list" where
  "matchAllFrom s i =
     (if length s < i then []
      else (case matchAt s i of
              Some e \<Rightarrow> take (e - i) (drop i s) # matchAllFrom s e
            | None \<Rightarrow> matchAllFrom s (i + 1)))"
  by pat_completeness auto
termination
  by (relation "measure (\<lambda>(s, i). length s + 1 - i)") (auto dest: matchAt_greater)

declare matchAllFrom.simps [simp del]

definition extractHashtags :: "jsstring \<Rightarrow> jsstring list" where
  "extractHashtags input = matchAllFrom (stripFences input) 0"

text \<open>A fence occurs somewhere in the string.\<close>

fun hasFence :: "jsstring \<Rightarrow> bool" where
  "hasFence [] = False"
| "hasFence (c # cs) = (prefix fence (c # cs) \<or> hasFence cs)"

text \<open>A fenced block can be matched somewhere in the string.\<close>

fun hasBlock :: "jsstring \<Rightarrow> bool" where
  "hasBlock [] = False"
| "hasBlock (c # cs) = (matchFence (c # cs) \<noteq> None \<or> hasBlock cs)"

text \<open>
  An input read as a list of fenced blocks, each with the text that stands before it,
  and the text after the last block: \<open>withBlocks\<close> is the input, \<open>withoutBlocks\<close>
  the texts outside the blocks put end to end. \<open>leftmostBlocks\<close> holds when the blocks
  are those the pattern matches from the left: the opening fence of a block is the first
  three backticks in a row from where the search stands, its closing fence the first
  three in a row after the opening one, and no block can be matched in the last text.
\<close>

definition withBlocks :: "(jsstring \<times> jsstring) list \<Rightarrow> jsstring \<Rightarrow> jsstring" where
  "withBlocks blocks rest = concat (map (\<lambda>(a, b). a @ fence @ b @ fence) blocks) @ rest"

definition withoutBlocks :: "(jsstring \<times> jsstring) list \<Rightarrow> jsstring \<Rightarrow> jsstring" where
  "withoutBlocks blocks rest = concat (map fst blocks) @ rest"

definition leftmostBlocks :: "(jsstring \<times> jsstring) list \<Rightarrow> jsstring \<Rightarrow> bool" where
  "leftmostBlocks blocks rest \<longleftrightarrow>
     list_all (\<lambda>(a, b). \<not> hasFence (a @ [backtick, backtick]) \<and>
                        \<not> hasFence (b @ [backtick, backtick])) blocks \<and>
     \<not> hasBlock rest"

section \<open>JavaScript and lodash operations used by the routers\<close>

text \<open>
  \<^verbatim>\<open>s.replace(/lit/g, rep)\<close> for a literal pattern: leftmost matches, not overlapping.
  The patterns of the source are not empty; the test keeps the function total.
\<close>

function replaceAll :: "jsstring \<Rightarrow> jsstring \<Rightarrow> jsstring \<Rightarrow> jsstring" where
  "replaceAll pat rep [] = []"
| "replaceAll pat rep (c # cs) =
     (if pat \<noteq> [] \<and> prefix pat (c # cs)
      then rep @ replaceAll pat rep (drop (length pat) (c # cs))
      else c # replaceAll pat rep cs)"
  by pat_completeness auto
termination
  by (relation "measure (\<lambda>(pat, rep, s). length s)") (auto simp: neq_Nil_conv)

definition backslash :: code_unit where
  "backslash = 0x5C"

text \<open>
  The class \<^verbatim>\<open>[#<>{}[\]|`*-_.]\<close> of the third replace in upsert: the listed
  characters, and the range from \<^verbatim>\<open>*\<close> (0x2A) to \<^verbatim>\<open>_\<close> (0x5F) that
  \<^verbatim>\<open>*-_\<close> denotes inside a class.
\<close>

definition escapable :: "code_unit \<Rightarrow> bool" where
  "escapable c \<longleftrightarrow>
     c = 0x23 \<or> c = 0x3C \<or> c = 0x3E \<or> c = 0x7B \<or> c = 0x7D \<or> c = 0x5B \<or> c = 0x5D \<or>
     c = 0x7C \<or> c = 0x60 \<or> (0x2A \<le> c \<and> c \<le> 0x5F) \<or> c = 0x2E"

text \<open>\<^verbatim>\<open>s.replace(/\\([#<>{}[\]|`*-_.])/g, '$1')\<close>: a backslash before such a character is dropped.\<close>

fun unescape :: "jsstring \<Rightarrow> jsstring" where
  "unescape (c # d # cs) =
     (if c = backslash \<and> escapable d then d # unescape cs else c # unescape (d # cs))"
| "unescape cs = cs"

text \<open>The three replaces upsert applies to a content that is not null.\<close>

definition sanitize :: "jsstring \<Rightarrow> jsstring" where
  "sanitize content =
     unescape (replaceAll (js ''&#x20;'' @ [backslash]) [] (replaceAll (js ''&#x20;'') (js '' '') content))"

text \<open>
  The argument of extractHashtags in upsert, \<^verbatim>\<open>content?.replace(/\\/g, '') + ' '\<close>:
  for a null content the optional chain gives undefined, which \<^verbatim>\<open>+\<close> prints.
\<close>

definition hashtagSource :: "jsstring option \<Rightarrow> jsstring" where
  "hashtagSource content =
     (case content of
        None \<Rightarrow> js ''undefined''
      | Some c \<Rightarrow> filter (\<lambda>x. x \<noteq> backslash) c) @ js '' ''"

text \<open>\<^verbatim>\<open>s.split(sep)\<close> for a string separator; \<open>cur\<close> is the piece being read.\<close>

function js_split :: "jsstring \<Rightarrow> jsstring \<Rightarrow> jsstring \<Rightarrow> jsstring list" where
  "js_split sep cur [] = [cur]"
| "js_split sep cur (c # cs) =
     (if sep \<noteq> [] \<and> prefix sep (c # cs)
      then cur # js_split sep [] (drop (length sep) (c # cs))
      else js_split sep (cur @ [c]) cs)"
  by pat_completeness auto
termination
  by (relation "measure (\<lambda>(sep, cur, s). length s)") (auto simp: neq_Nil_conv)

text \<open>
  A number in a template literal. Identifiers are database integers, far below the
  size at which JavaScript prints an exponent.
\<close>

function digits :: "nat \<Rightarrow> jsstring" where
  "digits n = (if n < 10 then [of_nat (48 + n)] else digits (n div 10) @ [of_nat (48 + n mod 10)])"
  by pat_completeness auto
termination
  by (relation "measure id") auto

declare digits.simps [simp del]

definition numberToString :: "int \<Rightarrow> jsstring" where
  "numberToString i = (if i < 0 then js ''-'' @ digits (nat (- i)) else digits (nat i))"

text \<open>
  \<^verbatim>\<open>Number(s)\<close> for a string. White space at the two ends is dropped; the empty
  string is 0; a literal with the prefix \<^verbatim>\<open>0x\<close>, \<^verbatim>\<open>0o\<close> or \<^verbatim>\<open>0b\<close> (no sign)
  is read in its radix; anything else is a decimal literal with an optional sign, an
  optional fraction and an optional exponent, or \<^verbatim>\<open>Infinity\<close>; every other string
  is NaN. The value is the double nearest to the number written, ties going to the even
  significand (the standard lets an engine cut a decimal literal after its twentieth
  significant digit before it rounds; Node rounds the literal as it is written, and so
  does the model). upsert compares the result with the integer column \<^verbatim>\<open>parent\<close>, so
  the model keeps the integer that the double is: \<open>None\<close> stands for NaN, for the
  infinities and for every double that is not whole.
\<close>

definition isDigit :: "code_unit \<Rightarrow> bool" where
  "isDigit c \<longleftrightarrow> 0x30 \<le> c \<and> c \<le> 0x39"

definition digitOf :: "code_unit \<Rightarrow> int option" where
  "digitOf c =
     (if 0x30 \<le> c \<and> c \<le> 0x39 then Some (uint c - 0x30)
      else if 0x61 \<le> c \<and> c \<le> 0x66 then Some (uint c - 0x61 + 10)
      else if 0x41 \<le> c \<and> c \<le> 0x46 then Some (uint c - 0x41 + 10)
      else None)"

fun digitsIn :: "int \<Rightarrow> int \<Rightarrow> jsstring \<Rightarrow> int option" where
  "digitsIn radix acc [] = Some acc"
| "digitsIn radix acc (c # cs) =
     (case digitOf c of
        None \<Rightarrow> None
      | Some v \<Rightarrow> if v < radix then digitsIn radix (radix * acc + v) cs else None)"

text \<open>One or more digits of the radix, and nothing else.\<close>

definition digitString :: "int \<Rightarrow> jsstring \<Rightarrow> int option" where
  "digitString radix s = (if s = [] then None else digitsIn radix 0 s)"

text \<open>The number of binary digits of a positive integer.\<close>

function bitLength :: "int \<Rightarrow> int" where
  "bitLength n = (if n \<le> 0 then 0 else 1 + bitLength (n div 2))"
  by pat_completeness auto
termination
  by (relation "measure nat") auto

declare bitLength.simps [simp del]

text \<open>\<open>b\<close> to the power \<open>e\<close> where \<open>e\<close> is not negative, and 1 otherwise.\<close>

definition powerOrOne :: "int \<Rightarrow> int \<Rightarrow> int" where
  "powerOrOne b e = (if 0 \<le> e then b ^ nat e else 1)"

text \<open>
  The double nearest to \<open>num / den\<close> (both positive, or \<open>num\<close> zero), when it is a
  whole number. \<open>k\<close> is the binary exponent of the quotient, \<open>2 ^ e\<close> the distance of
  the doubles around it (the least exponent of a normal double is -1022, a significand
  has 53 bits), \<open>m\<close> the quotient in units of that distance, rounded to the nearest
  integer and to the even one at a tie. From \<open>2 ^ 1024\<close> on the result is Infinity.
\<close>

definition wholeDouble :: "int \<Rightarrow> int \<Rightarrow> int option" where
  "wholeDouble num den =
     (if num = 0 then Some 0
      else
        (let k0 = bitLength num - bitLength den;
             k = (if den * powerOrOne 2 k0 \<le> num * powerOrOne 2 (- k0) then k0 else k0 - 1);
             e = max k (- 1022) - 52;
             n = num * powerOrOne 2 (- e);
             d = den * powerOrOne 2 e;
             q = n div d;
             r = n mod d;
             m = (if d < 2 * r \<or> (2 * r = d \<and> odd q) then q + 1 else q)
         in if 0 \<le> e then (if 2 ^ 1024 \<le> m * 2 ^ nat e then None else Some (m * 2 ^ nat e))
            else if m mod 2 ^ nat (- e) = 0 then Some (m div 2 ^ nat (- e))
            else None))"

definition trim :: "jsstring \<Rightarrow> jsstring" where
  "trim s = rev (dropWhile isSpace (rev (dropWhile isSpace s)))"

text \<open>The exponent of a decimal literal: nothing, or \<^verbatim>\<open>e\<close> or \<^verbatim>\<open>E\<close> and a signed integer.\<close>

definition signedInteger :: "jsstring \<Rightarrow> int option" where
  "signedInteger s =
     (case s of
        [] \<Rightarrow> None
      | c # cs \<Rightarrow>
          if c = 0x2B then digitString 10 cs
          else if c = 0x2D then map_option uminus (digitString 10 cs)
          else digitString 10 s)"

definition exponentPart :: "jsstring \<Rightarrow> int option" where
  "exponentPart s =
     (case s of
        [] \<Rightarrow> Some 0
      | c # cs \<Rightarrow> if c = 0x65 \<or> c = 0x45 then signedInteger cs else None)"

text \<open>
  A decimal literal without its sign: digits, a point and digits, of which one of the two
  runs of digits may be missing, and an exponent.
\<close>

definition unsignedDecimal :: "jsstring \<Rightarrow> int option" where
  "unsignedDecimal s =
     (if s = js ''Infinity'' then None
      else
        (let whole = takeWhile isDigit s;
             r = dropWhile isDigit s;
             dot = (r \<noteq> [] \<and> hd r = 0x2E);
             fraction = (if dot then takeWhile isDigit (tl r) else []);
             r2 = (if dot then dropWhile isDigit (tl r) else r)
         in if whole = [] \<and> fraction = [] then None
            else
              (case (digitString 10 (whole @ fraction), exponentPart r2) of
                 (Some m, Some x) \<Rightarrow>
                   (let p = x - int (length fraction)
                    in wholeDouble (m * powerOrOne 10 p) (powerOrOne 10 (- p)))
               | _ \<Rightarrow> None)))"

definition stringToNumber :: "jsstring \<Rightarrow> int option" where
  "stringToNumber s =
     (let t = trim s in
      if t = [] then Some 0
      else if prefix (js ''0x'') t \<or> prefix (js ''0X'') t then
        (case digitString 16 (drop 2 t) of None \<Rightarrow> None | Some v \<Rightarrow> wholeDouble v 1)
      else if prefix (js ''0o'') t \<or> prefix (js ''0O'') t then
        (case digitString 8 (drop 2 t) of None \<Rightarrow> None | Some v \<Rightarrow> wholeDouble v 1)
      else if prefix (js ''0b'') t \<or> prefix (js ''0B'') t then
        (case digitString 2 (drop 2 t) of None \<Rightarrow> None | Some v \<Rightarrow> wholeDouble v 1)
      else if hd t = 0x2B then unsignedDecimal (tl t)
      else if hd t = 0x2D then map_option uminus (unsignedDecimal (tl t))
      else unsignedDecimal t)"

text \<open>\<^verbatim>\<open>_.difference(xs, ys)\<close>: the elements of \<open>xs\<close> that are not in \<open>ys\<close>, in order.\<close>

definition difference :: "'a list \<Rightarrow> 'a list \<Rightarrow> 'a list" where
  "difference xs ys = filter (\<lambda>x. x \<notin> set ys) xs"

text \<open>The truth value of an optional number: undefined and 0 are false.\<close>

definition truthy :: "int option \<Rightarrow> bool" where
  "truthy i = (case i of None \<Rightarrow> False | Some v \<Rightarrow> v \<noteq> 0)"

text \<open>\<^verbatim>\<open>xs.filter(i => !!i)\<close> on a list that may hold null.\<close>

fun nonNull :: "'a option list \<Rightarrow> 'a list" where
  "nonNull [] = []"
| "nonNull (None # xs) = nonNull xs"
| "nonNull (Some x # xs) = x # nonNull xs"


section \<open>The relational store\<close>

text \<open>
  The routers work on tables of a relational store through a query builder. A table is
  the list of its rows in insertion order; \<^verbatim>\<open>findFirst\<close> is \<open>find\<close>,
  \<^verbatim>\<open>findMany\<close> is \<open>filter\<close> and \<^verbatim>\<open>deleteMany\<close> keeps the rows that do not
  match. The columns are those the routers read or write; time stamps are left out.
  (The table \<^verbatim>\<open>notes\<close> is the field \<open>notes_table\<close>: \<open>notes\<close> is a keyword here.)
  The schema is not among the sources: the model gives every created row the next value
  of its table's sequence as identifier, refuses a second tagsToNote row for the same
  note and tag with P2002 (the error upsert catches), and has no other constraint.
\<close>

datatype error = TypeError | Conflict | HttpError | NoteNotFound | P2002 | P2025

record accounts_row =
  acc_id :: int
  acc_name :: "jsstring option"
  acc_nickname :: "jsstring option"
  acc_image :: "jsstring option"

datatype followType = Following | Follower

record follows_row =
  fw_id :: int
  fw_siteName :: "jsstring option"
  fw_siteUrl :: jsstring
  fw_siteAvatar :: "jsstring option"
  fw_followType :: followType
  fw_accountId :: int

record notes_row =
  n_id :: int
  n_accountId :: int
  n_content :: jsstring
  n_type :: int
  n_isArchived :: bool
  n_isTop :: bool
  n_isShare :: bool
  n_isRecycle :: bool
  n_isReviewed :: bool

record tag_row =
  t_id :: int
  t_name :: jsstring
  t_parent :: int
  t_accountId :: int

record tagsToNote_row =
  tn_tagId :: int
  tn_noteId :: int

record noteReference_row =
  nr_id :: int
  nr_fromNoteId :: int
  nr_toNoteId :: int

record attachments_row =
  at_id :: int
  at_name :: jsstring
  at_path :: jsstring
  at_size :: int
  at_noteId :: int

record db =
  accounts :: "accounts_row list"
  follows :: "follows_row list"
  notes_table :: "notes_row list"
  tag :: "tag_row list"
  tagsToNote :: "tagsToNote_row list"
  noteReference :: "noteReference_row list"
  attachments :: "attachments_row list"
  seq_follows :: int
  seq_notes :: int
  seq_tag :: int
  seq_noteReference :: int
  seq_attachments :: int

text \<open>
  \<^verbatim>\<open>prisma.$transaction(async (tx) => ...)\<close>: when the callback throws, the writes
  made through \<open>tx\<close> are rolled back and the error goes to the caller. Sequences
  stand outside transactions and keep their values.
\<close>

definition transaction :: "(db \<Rightarrow> (error + 'a) \<times> db) \<Rightarrow> db \<Rightarrow> (error + 'a) \<times> db" where
  "transaction callback d =
     (case callback d of
        (Inl e, d') \<Rightarrow>
          (Inl e, d\<lparr>seq_follows := seq_follows d', seq_notes := seq_notes d', seq_tag := seq_tag d',
                    seq_noteReference := seq_noteReference d',
                    seq_attachments := seq_attachments d'\<rparr>)
      | (Inr x, d') \<Rightarrow> (Inr x, d'))"

section \<open>The follow service (follows.ts)\<close>

text \<open>
  What the service reaches outside the store, as parameters: \<open>urlOrigin\<close> is
  \<^verbatim>\<open>new URL(s).origin\<close> (\<open>None\<close> when the constructor throws a TypeError),
  \<open>httpGet\<close> the site-info request to a remote site (\<open>None\<close> when axios throws)
  and \<open>httpPost\<close> the follow-from notification (\<open>False\<close> when axios throws).
\<close>

record site_info =
  si_id :: "int option"
  si_name :: "jsstring option"
  si_image :: "jsstring option"

record follow_from_body =
  ffb_mySiteAccountId :: "int option"
  ffb_siteUrl :: jsstring
  ffb_siteName :: "jsstring option"
  ffb_siteAvatar :: jsstring

record remote =
  urlOrigin :: "jsstring \<Rightarrow> jsstring option"
  httpGet :: "jsstring \<Rightarrow> site_info option"
  httpPost :: "jsstring \<Rightarrow> follow_from_body \<Rightarrow> bool"

record follow_result =
  success :: bool
  data :: follows_row

definition follows_create ::
  "followType \<Rightarrow> jsstring \<Rightarrow> jsstring option \<Rightarrow> jsstring option \<Rightarrow> int \<Rightarrow> db \<Rightarrow> follows_row \<times> db" where
  "follows_create ft siteUrl siteName siteAvatar accountId d =
     (let row = \<lparr>fw_id = seq_follows d, fw_siteName = siteName, fw_siteUrl = siteUrl,
                 fw_siteAvatar = siteAvatar, fw_followType = ft, fw_accountId = accountId\<rparr>
      in (row, d\<lparr>follows := follows d @ [row], seq_follows := seq_follows d + 1\<rparr>))"

text \<open>A value that may be undefined or null, appended to a string.\<close>

definition plusNullable :: "jsstring \<Rightarrow> jsstring option \<Rightarrow> jsstring \<Rightarrow> jsstring" where
  "plusNullable s v missing = s @ (case v of None \<Rightarrow> missing | Some x \<Rightarrow> x)"

text \<open>The two \<^verbatim>\<open>where\<close> clauses the service looks a row up with.\<close>

definition followingOf :: "jsstring \<Rightarrow> int \<Rightarrow> follows_row \<Rightarrow> bool" where
  "followingOf siteUrl accountId f \<longleftrightarrow>
     fw_siteUrl f = siteUrl \<and> fw_accountId f = accountId \<and> fw_followType f = Following"

definition followerOf :: "jsstring \<Rightarrow> int \<Rightarrow> follows_row \<Rightarrow> bool" where
  "followerOf siteUrl accountId f \<longleftrightarrow>
     fw_siteUrl f = siteUrl \<and> fw_followType f = Follower \<and> fw_accountId f = accountId"

text \<open>
  The callback of \<open>follow\<close>. \<open>accountId\<close> is \<^verbatim>\<open>Number(ctx.id)\<close>. The site-info
  request comes before the look-up of an existing row, and the notification is sent
  inside the callback, after the row is created.
\<close>

definition follow_callback ::
  "remote \<Rightarrow> int \<Rightarrow> jsstring \<Rightarrow> jsstring \<Rightarrow> db \<Rightarrow> (error + follow_result) \<times> db" where
  "follow_callback rm accountId siteUrl0 mySiteUrl0 d =
     (case urlOrigin rm siteUrl0 of
        None \<Rightarrow> (Inl TypeError, d)
      | Some siteUrl \<Rightarrow>
     (case urlOrigin rm mySiteUrl0 of
        None \<Rightarrow> (Inl TypeError, d)
      | Some mySiteUrl \<Rightarrow>
     (case httpGet rm (siteUrl @ js ''/api/v1/public/site-info'') of
        None \<Rightarrow> (Inl HttpError, d)
      | Some siteInfo \<Rightarrow>
     (case find (followingOf siteUrl accountId) (follows d) of
        Some existingFollow \<Rightarrow> (Inl Conflict, d)
      | None \<Rightarrow>
          (let (result, d1) =
                 follows_create Following siteUrl (si_name siteInfo)
                   (Some (case si_image siteInfo of
                            None \<Rightarrow> []
                          | Some img \<Rightarrow> if img = [] then [] else siteUrl @ img))
                   accountId d;
               mySiteInfo = find (\<lambda>a. acc_id a = accountId) (accounts d1);
               body = \<lparr>ffb_mySiteAccountId = si_id siteInfo, ffb_siteUrl = mySiteUrl,
                       ffb_siteName =
                         (case mySiteInfo of
                            None \<Rightarrow> None
                          | Some a \<Rightarrow> (case acc_nickname a of None \<Rightarrow> acc_name a | Some n \<Rightarrow> Some n)),
                       ffb_siteAvatar =
                         (case mySiteInfo of
                            None \<Rightarrow> mySiteUrl @ js ''undefined''
                          | Some a \<Rightarrow> plusNullable mySiteUrl (acc_image a) (js ''null''))\<rparr>
           in if httpPost rm (siteUrl @ js ''/api/v1/follows/follow-from'') body
              then (Inr \<lparr>success = True, data = result\<rparr>, d1)
              else (Inl HttpError, d1))))))"

definition follow ::
  "remote \<Rightarrow> int \<Rightarrow> jsstring \<Rightarrow> jsstring \<Rightarrow> db \<Rightarrow> (error + follow_result) \<times> db" where
  "follow rm accountId siteUrl mySiteUrl = transaction (follow_callback rm accountId siteUrl mySiteUrl)"

definition followFrom_callback ::
  "remote \<Rightarrow> int \<Rightarrow> jsstring \<Rightarrow> jsstring \<Rightarrow> jsstring \<Rightarrow> db \<Rightarrow> (error + follow_result) \<times> db" where
  "followFrom_callback rm mySiteAccountId siteUrl0 siteName siteAvatar d =
     (case urlOrigin rm siteUrl0 of
        None \<Rightarrow> (Inl TypeError, d)
      | Some siteUrl \<Rightarrow>
     (case find (followerOf siteUrl mySiteAccountId) (follows d) of
        Some existingFollow \<Rightarrow> (Inr \<lparr>success = True, data = existingFollow\<rparr>, d)
      | None \<Rightarrow>
          (let (result, d1) =
                 follows_create Follower siteUrl (Some siteName) (Some siteAvatar) mySiteAccountId d
           in (Inr \<lparr>success = True, data = result\<rparr>, d1))))"

definition followFrom ::
  "remote \<Rightarrow> int \<Rightarrow> jsstring \<Rightarrow> jsstring \<Rightarrow> jsstring \<Rightarrow> db \<Rightarrow> (error + follow_result) \<times> db" where
  "followFrom rm mySiteAccountId siteUrl siteName siteAvatar =
     transaction (followFrom_callback rm mySiteAccountId siteUrl siteName siteAvatar)"


text \<open>
  Remote sites for runs on concrete inputs. \<open>knownOrigin\<close> stands in for the parsing
  of an address: the two sites of the runs are origins and parse to themselves, any
  other string is taken as one that does not parse. \<open>remoteUp\<close> answers both
  requests, \<open>remoteDown\<close> answers none, \<open>remoteGetOnly\<close> answers the site-info
  request and fails the notification.
\<close>

definition siteA :: jsstring where
  "siteA = js ''https://a.example''"

definition siteB :: jsstring where
  "siteB = js ''https://b.example''"

definition knownOrigin :: "jsstring \<Rightarrow> jsstring option" where
  "knownOrigin s = (if s = siteA \<or> s = siteB then Some s else None)"

definition siteInfoB :: site_info where
  "siteInfoB = \<lparr>si_id = Some 7, si_name = Some (js ''B''), si_image = None\<rparr>"

definition remoteUp :: remote where
  "remoteUp = \<lparr>urlOrigin = knownOrigin, httpGet = (\<lambda>u. Some siteInfoB), httpPost = (\<lambda>u b. True)\<rparr>"

definition remoteDown :: remote where
  "remoteDown = \<lparr>urlOrigin = knownOrigin, httpGet = (\<lambda>u. None), httpPost = (\<lambda>u b. False)\<rparr>"

definition remoteGetOnly :: remote where
  "remoteGetOnly = \<lparr>urlOrigin = knownOrigin, httpGet = (\<lambda>u. Some siteInfoB), httpPost = (\<lambda>u b. False)\<rparr>"

definition emptyDb :: db where
  "emptyDb = \<lparr>accounts = [], follows = [], notes_table = [], tag = [], tagsToNote = [],
              noteReference = [], attachments = [], seq_follows = 1, seq_notes = 1, seq_tag = 1,
              seq_noteReference = 1, seq_attachments = 1\<rparr>"

definition followingB :: follows_row where
  "followingB = \<lparr>fw_id = 1, fw_siteName = Some (js ''B''), fw_siteUrl = siteB,
                  fw_siteAvatar = Some [], fw_followType = Following, fw_accountId = 1\<rparr>"

definition followerA :: follows_row where
  "followerA = \<lparr>fw_id = 1, fw_siteName = Some (js ''A''), fw_siteUrl = siteA,
                 fw_siteAvatar = Some (js ''/a.png''), fw_followType = Follower, fw_accountId = 7\<rparr>"

section \<open>The note service (note.ts)\<close>

subsection \<open>Queries on the tables\<close>

text \<open>
  Modelled from the spec: the column defaults of the notes table, whose schema is not
  among the sources. The spec has a note enter its life cycle as active: a created note
  is not archived, not recycled and not reviewed unless the call says so.
\<close>

definition notes_create :: "jsstring \<Rightarrow> int \<Rightarrow> int \<Rightarrow> bool \<Rightarrow> bool \<Rightarrow> db \<Rightarrow> notes_row \<times> db" where
  "notes_create content noteType accountId isShare isTop d =
     (let row = \<lparr>n_id = seq_notes d, n_accountId = accountId, n_content = content,
                 n_type = noteType, n_isArchived = False, n_isTop = isTop, n_isShare = isShare,
                 n_isRecycle = False, n_isReviewed = False\<rparr>
      in (row, d\<lparr>notes_table := notes_table d @ [row], seq_notes := seq_notes d + 1\<rparr>))"

text \<open>
  \<^verbatim>\<open>prisma.notes.update({ where: { id, accountId }, data })\<close> throws P2025 when no row
  matches; \<open>id\<close> is the primary key.
\<close>

definition notes_update ::
  "int \<Rightarrow> int \<Rightarrow> (notes_row \<Rightarrow> notes_row) \<Rightarrow> db \<Rightarrow> (error + notes_row) \<times> db" where
  "notes_update i accountId upd d =
     (case find (\<lambda>n. n_id n = i \<and> n_accountId n = accountId) (notes_table d) of
        None \<Rightarrow> (Inl P2025, d)
      | Some n \<Rightarrow>
          (Inr (upd n),
           d\<lparr>notes_table :=
               map (\<lambda>m. if n_id m = i \<and> n_accountId m = accountId then upd m else m)
                 (notes_table d)\<rparr>))"

definition tag_create :: "jsstring \<Rightarrow> int \<Rightarrow> int \<Rightarrow> db \<Rightarrow> tag_row \<times> db" where
  "tag_create nm parent accountId d =
     (let row = \<lparr>t_id = seq_tag d, t_name = nm, t_parent = parent, t_accountId = accountId\<rparr>
      in (row, d\<lparr>tag := tag d @ [row], seq_tag := seq_tag d + 1\<rparr>))"

definition tagsToNote_create :: "int \<Rightarrow> int \<Rightarrow> db \<Rightarrow> (error + unit) \<times> db" where
  "tagsToNote_create tagId noteId d =
     (if \<exists>r \<in> set (tagsToNote d). tn_tagId r = tagId \<and> tn_noteId r = noteId
      then (Inl P2002, d)
      else (Inr (), d\<lparr>tagsToNote := tagsToNote d @ [\<lparr>tn_tagId = tagId, tn_noteId = noteId\<rparr>]\<rparr>))"

text \<open>\<^verbatim>\<open>include: { tag: true }\<close>: the tag a tagsToNote row points to.\<close>

definition includeTag :: "db \<Rightarrow> tagsToNote_row \<Rightarrow> tag_row option" where
  "includeTag d r = find (\<lambda>t. t_id t = tn_tagId r) (tag d)"

definition noteReference_create :: "int \<Rightarrow> int \<Rightarrow> db \<Rightarrow> noteReference_row \<times> db" where
  "noteReference_create fromNoteId toNoteId d =
     (let row = \<lparr>nr_id = seq_noteReference d, nr_fromNoteId = fromNoteId, nr_toNoteId = toNoteId\<rparr>
      in (row, d\<lparr>noteReference := noteReference d @ [row],
                 seq_noteReference := seq_noteReference d + 1\<rparr>))"

fun noteReference_createMany :: "int \<Rightarrow> int list \<Rightarrow> db \<Rightarrow> db" where
  "noteReference_createMany fromNoteId [] d = d"
| "noteReference_createMany fromNoteId (toNoteId # rest) d =
     noteReference_createMany fromNoteId rest (snd (noteReference_create fromNoteId toNoteId d))"

record attachment_input =
  ai_name :: jsstring
  ai_path :: jsstring
  ai_size :: int

fun attachments_createMany :: "int \<Rightarrow> attachment_input list \<Rightarrow> db \<Rightarrow> db" where
  "attachments_createMany noteId [] d = d"
| "attachments_createMany noteId (i # rest) d =
     attachments_createMany noteId rest
       (d\<lparr>attachments := attachments d @
             [\<lparr>at_id = seq_attachments d, at_name = ai_name i, at_path = ai_path i,
               at_size = ai_size i, at_noteId = noteId\<rparr>],
          seq_attachments := seq_attachments d + 1\<rparr>)"

subsection \<open>Tags of a note\<close>

datatype TagTreeNode = TagTreeNode (node_name: jsstring) (node_children: "TagTreeNode list option")

text \<open>
  Two functions upsert calls are parameters of the model.
  \<open>buildHashTagTreeFromHashString\<close> is the helper of \<^verbatim>\<open>@/lib/helper\<close>, which is
  not among the sources. \<open>Number\<close> is the builtin conversion of a string, read where
  upsert compares its result to a parent identifier: \<open>Some i\<close> when the result is the
  integer \<open>i\<close>, \<open>None\<close> when it is NaN or not an integer.
\<close>

record helpers =
  buildHashTagTreeFromHashString :: "jsstring list \<Rightarrow> TagTreeNode list"
  Number :: "jsstring \<Rightarrow> int option"

text \<open>
  The first half of the loop body of \<open>handleAddTags\<close>: find the tag of a node under
  its parent or create it, and link it to the note unless the link is there. The create
  of the link throws P2002 when the store holds it already.
\<close>

definition linkedTag ::
  "int \<Rightarrow> int option \<Rightarrow> jsstring \<Rightarrow> tag_row option \<Rightarrow> db \<Rightarrow> (error + tag_row) \<times> db" where
  "linkedTag accountId noteId nm parentTag d =
     (let parent = (case parentTag of None \<Rightarrow> 0 | Some p \<Rightarrow> t_id p);
          (hasTag, d1) =
            (case find (\<lambda>t. t_name t = nm \<and> t_parent t = parent \<and> t_accountId t = accountId)
                    (tag d) of
               Some t \<Rightarrow> (t, d)
             | None \<Rightarrow> tag_create nm parent accountId d)
      in if truthy noteId then
           (case find (\<lambda>r. includeTag d1 r = Some hasTag \<and> Some (tn_noteId r) = noteId)
                   (tagsToNote d1) of
              Some hasRelation \<Rightarrow> (Inr hasTag, d1)
            | None \<Rightarrow>
                (case tagsToNote_create (t_id hasTag) (the noteId) d1 of
                   (Inl e, d2) \<Rightarrow> (Inl e, d2)
                 | (Inr u, d2) \<Rightarrow> (Inr hasTag, d2)))
         else (Inr hasTag, d1))"

text \<open>
  \<open>handleAddTags\<close> of upsert: for each node of the tree, the tag is found or created
  and linked, the children are gone through with the tag as their parent, then the tag
  is pushed to \<open>newTags\<close>. The closure's \<open>newTags\<close> is passed and returned.
\<close>

fun handleAddTags ::
  "int \<Rightarrow> int option \<Rightarrow> TagTreeNode list \<Rightarrow> tag_row option \<Rightarrow> tag_row list \<Rightarrow> db \<Rightarrow>
   (error + tag_row list) \<times> db" where
  "handleAddTags accountId noteId [] parentTag newTags d = (Inr newTags, d)"
| "handleAddTags accountId noteId (TagTreeNode nm ch # rest) parentTag newTags d =
     (case linkedTag accountId noteId nm parentTag d of
        (Inl e, d2) \<Rightarrow> (Inl e, d2)
      | (Inr hasTag, d2) \<Rightarrow>
          (case (case ch of
                   None \<Rightarrow> (Inr newTags, d2)
                 | Some cs \<Rightarrow> handleAddTags accountId noteId cs (Some hasTag) newTags d2) of
             (Inl e, d3) \<Rightarrow> (Inl e, d3)
           | (Inr newTags3, d3) \<Rightarrow>
               handleAddTags accountId noteId rest parentTag (newTags3 @ [hasTag]) d3))"

subsection \<open>upsert\<close>

record upsert_input =
  in_content :: "jsstring option"
  in_type :: int
  in_attachments :: "attachment_input list"
  in_id :: "int option"
  in_isArchived :: "bool option"
  in_isTop :: "bool option"
  in_isShare :: "bool option"
  in_isRecycle :: "bool option"
  in_references :: "int list option"

datatype upsert_result = ReturnsNote notes_row | ReturnsUndefined

text \<open>The object \<open>update\<close>: a field is written when the input gives it.\<close>

definition updateData :: "upsert_input \<Rightarrow> jsstring option \<Rightarrow> notes_row \<Rightarrow> notes_row" where
  "updateData input content n =
     n\<lparr>n_type := (if in_type input \<noteq> - 1 then in_type input else n_type n),
       n_isArchived := (case in_isArchived input of None \<Rightarrow> n_isArchived n | Some b \<Rightarrow> b),
       n_isTop := (case in_isTop input of None \<Rightarrow> n_isTop n | Some b \<Rightarrow> b),
       n_isShare := (case in_isShare input of None \<Rightarrow> n_isShare n | Some b \<Rightarrow> b),
       n_isRecycle := (case in_isRecycle input of None \<Rightarrow> n_isRecycle n | Some b \<Rightarrow> b),
       n_content := (case content of None \<Rightarrow> n_content n | Some c \<Rightarrow> c)\<rparr>"

text \<open>The key of a tag in the two string lists upsert compares: name, \<^verbatim>\<open><key>\<close>, parent.\<close>

definition tagKey :: "tag_row \<Rightarrow> jsstring" where
  "tagKey t = t_name t @ js ''<key>'' @ numberToString (t_parent t)"

text \<open>
  \<^verbatim>\<open>tags.find(t => (t?.name == name) && (t?.parent == Number(parent)))\<close> after
  \<^verbatim>\<open>const [name, parent] = key.split('<key>')\<close>. A key has at least two pieces;
  \<open>Number\<close> of a missing piece would be NaN.
\<close>

definition findByKey :: "helpers \<Rightarrow> tag_row list \<Rightarrow> jsstring \<Rightarrow> tag_row option" where
  "findByKey h tags key =
     (let pieces = js_split (js ''<key>'') [] key;
          nm = hd pieces;
          parent = (case tl pieces of [] \<Rightarrow> None | p # ps \<Rightarrow> Number h p)
      in find (\<lambda>t. t_name t = nm \<and> Some (t_parent t) = parent) tags)"

text \<open>
  The identifiers given to \<^verbatim>\<open>tagsToNote.deleteMany\<close>. Where \<open>find\<close> gives
  undefined, reading its \<^verbatim>\<open>id\<close> throws a TypeError (the \<^verbatim>\<open>!\<close> of the source is
  erased when it is compiled).
\<close>

fun deletedRelationIds :: "helpers \<Rightarrow> tag_row list \<Rightarrow> jsstring list \<Rightarrow> error + int list" where
  "deletedRelationIds h oldTags [] = Inr []"
| "deletedRelationIds h oldTags (key # keys) =
     (case findByKey h oldTags key of
        None \<Rightarrow> Inl TypeError
      | Some t \<Rightarrow>
          (case deletedRelationIds h oldTags keys of
             Inl e \<Rightarrow> Inl e
           | Inr ids \<Rightarrow> Inr (t_id t # ids)))"

definition deleteRelationTags ::
  "helpers \<Rightarrow> int \<Rightarrow> tag_row list \<Rightarrow> jsstring list \<Rightarrow> db \<Rightarrow> (error + unit) \<times> db" where
  "deleteRelationTags h noteId oldTags needToBeDeletedRelationTags d =
     (if needToBeDeletedRelationTags \<noteq> [] then
        (case deletedRelationIds h oldTags needToBeDeletedRelationTags of
           Inl e \<Rightarrow> (Inl e, d)
         | Inr ids \<Rightarrow>
             (Inr (),
              d\<lparr>tagsToNote :=
                  filter (\<lambda>r. \<not> (tn_noteId r = noteId \<and> tn_tagId r \<in> set (filter (\<lambda>i. i \<noteq> 0) ids)))
                    (tagsToNote d)\<rparr>))
      else (Inr (), d))"

text \<open>
  The loop over \<open>needTobeAddedRelationTags\<close>: a P2002 of the create is caught, and
  the create of the model throws nothing else.
\<close>

fun addRelationTags :: "helpers \<Rightarrow> int \<Rightarrow> tag_row list \<Rightarrow> jsstring list \<Rightarrow> db \<Rightarrow> db" where
  "addRelationTags h noteId newTags [] d = d"
| "addRelationTags h noteId newTags (relationTag # rest) d =
     addRelationTags h noteId newTags rest
       (let tagId = map_option t_id (findByKey h newTags relationTag)
        in if truthy tagId then snd (tagsToNote_create (the tagId) noteId d) else d)"

text \<open>The tags the note had that no tagsToNote row uses any more are deleted.\<close>

definition deleteUnusedTags :: "int \<Rightarrow> tag_row list \<Rightarrow> db \<Rightarrow> db" where
  "deleteUnusedTags accountId oldTags d =
     (let allTagsIds = map t_id oldTags;
          usingTags = filter (\<lambda>i. i \<noteq> 0)
                        (map tn_tagId (filter (\<lambda>r. tn_tagId r \<in> set allTagsIds) (tagsToNote d)));
          needTobeDeledTags = difference allTagsIds usingTags
      in d\<lparr>tag := filter (\<lambda>t. \<not> (t_id t \<in> set needTobeDeledTags \<and> t_accountId t = accountId))
                    (tag d)\<rparr>)"

text \<open>The attachments whose path the note does not have yet are inserted.\<close>

definition insertAttachments :: "int \<Rightarrow> attachment_input list \<Rightarrow> db \<Rightarrow> db" where
  "insertAttachments noteId atts d =
     (if atts \<noteq> [] then
        (let oldAttachments = filter (\<lambda>a. at_noteId a = noteId) (attachments d);
             needTobeAddedAttachmentsPath = difference (map ai_path atts) (map at_path oldAttachments)
         in if needTobeAddedAttachmentsPath \<noteq> []
            then attachments_createMany noteId
                   (filter (\<lambda>t. ai_path t \<in> set needTobeAddedAttachmentsPath) atts) d
            else d)
      else d)"

text \<open>
  The branch of upsert for a call with an id. No transaction surrounds it: what was
  written before an error stays written.
\<close>

definition upsert_update ::
  "helpers \<Rightarrow> int \<Rightarrow> upsert_input \<Rightarrow> jsstring option \<Rightarrow> TagTreeNode list \<Rightarrow> int \<Rightarrow> db \<Rightarrow>
   (error + upsert_result) \<times> db" where
  "upsert_update h accountId input content tagTree i d =
     (case notes_update i accountId (updateData input content) d of
        (Inl e, d1) \<Rightarrow> (Inl e, d1)
      | (Inr note, d1) \<Rightarrow>
          if content = None then (Inr ReturnsUndefined, d1)
          else
            (let oldTagsInThisNote =
                   map (includeTag d1) (filter (\<lambda>r. tn_noteId r = n_id note) (tagsToNote d1))
             in case handleAddTags accountId (Some (n_id note)) tagTree None [] d1 of
                  (Inl e, d2) \<Rightarrow> (Inl e, d2)
                | (Inr newTags, d2) \<Rightarrow>
                    (let oldTags = nonNull oldTagsInThisNote;
                         oldTagsString = map tagKey oldTags;
                         newTagsString = map tagKey newTags;
                         needTobeAddedRelationTags = difference newTagsString oldTagsString;
                         needToBeDeletedRelationTags = difference oldTagsString newTagsString;
                         oldReferencesIds =
                           map nr_toNoteId
                             (filter (\<lambda>r. nr_fromNoteId r = n_id note) (noteReference d2));
                         references = (case in_references input of None \<Rightarrow> [] | Some rs \<Rightarrow> rs);
                         needToBeAddedReferences = difference references oldReferencesIds;
                         needToBeDeletedReferences = difference oldReferencesIds references
                     in case deleteRelationTags h (n_id note) oldTags needToBeDeletedRelationTags d2 of
                          (Inl e, d3) \<Rightarrow> (Inl e, d3)
                        | (Inr u, d3) \<Rightarrow>
                            (let d4 = addRelationTags h (n_id note) newTags needTobeAddedRelationTags d3;
                                 d5 = noteReference_createMany (n_id note) needToBeAddedReferences d4;
                                 d6 = d5\<lparr>noteReference :=
                                           filter (\<lambda>r. \<not> (nr_fromNoteId r = n_id note \<and>
                                                          nr_toNoteId r \<in> set needToBeDeletedReferences))
                                             (noteReference d5)\<rparr>;
                                 d7 = deleteUnusedTags accountId oldTags d6;
                                 d8 = insertAttachments (n_id note) (in_attachments input) d7
                             in (Inr (ReturnsNote note), d8)))))"

text \<open>
  The branch for a call without an id. The whole branch is in a \<^verbatim>\<open>try\<close> whose
  handler logs the error, so the call then returns undefined.
\<close>

definition upsert_create ::
  "int \<Rightarrow> upsert_input \<Rightarrow> jsstring option \<Rightarrow> TagTreeNode list \<Rightarrow> db \<Rightarrow>
   (error + upsert_result) \<times> db" where
  "upsert_create accountId input content tagTree d =
     (let (note, d1) =
            notes_create (case content of None \<Rightarrow> [] | Some c \<Rightarrow> c) (in_type input) accountId
              (in_isShare input = Some True) (in_isTop input = Some True) d
      in case handleAddTags accountId (Some (n_id note)) tagTree None [] d1 of
           (Inl e, d2) \<Rightarrow> (Inr ReturnsUndefined, d2)
         | (Inr newTags, d2) \<Rightarrow>
             (let d3 = attachments_createMany (n_id note) (in_attachments input) d2;
                  d4 = (case in_references input of
                          None \<Rightarrow> d3
                        | Some rs \<Rightarrow> if rs \<noteq> [] then noteReference_createMany (n_id note) rs d3 else d3)
              in (Inr (ReturnsNote note), d4)))"

text \<open>
  upsert. \<open>accountId\<close> is \<^verbatim>\<open>Number(ctx.id)\<close>. The webhook that the create branch
  fires is not awaited and writes nothing to the store.
\<close>

definition upsert :: "helpers \<Rightarrow> int \<Rightarrow> upsert_input \<Rightarrow> db \<Rightarrow> (error + upsert_result) \<times> db" where
  "upsert h accountId input d =
     (let content = map_option sanitize (in_content input);
          tagTree = buildHashTagTreeFromHashString h (extractHashtags (hashtagSource content))
      in if truthy (in_id input)
         then upsert_update h accountId input content tagTree (the (in_id input)) d
         else upsert_create accountId input content tagTree d)"

subsection \<open>deleteMany\<close>

text \<open>A note as deleteMany reads it first, with its tags and attachments included.\<close>

record note_with_relations =
  nw_id :: int
  nw_tags :: "tag_row option list"
  nw_attachments :: "attachments_row list"

definition findNotesWithRelations :: "int \<Rightarrow> int list \<Rightarrow> db \<Rightarrow> note_with_relations list" where
  "findNotesWithRelations accountId ids d =
     map (\<lambda>n. \<lparr>nw_id = n_id n,
               nw_tags = map (includeTag d) (filter (\<lambda>r. tn_noteId r = n_id n) (tagsToNote d)),
               nw_attachments = filter (\<lambda>a. at_noteId a = n_id n) (attachments d)\<rparr>)
       (filter (\<lambda>n. n_id n \<in> set ids \<and> n_accountId n = accountId) (notes_table d))"

text \<open>
  One turn of the loop of \<open>handleDeleteRelation\<close>. The webhook and the deletion of
  the attachments' files reach outside the store; an error of the latter is logged.
\<close>

definition deleteRelation :: "int \<Rightarrow> note_with_relations \<Rightarrow> db \<Rightarrow> db" where
  "deleteRelation accountId note d =
     (let d1 = d\<lparr>tagsToNote := filter (\<lambda>r. tn_noteId r \<noteq> nw_id note) (tagsToNote d)\<rparr>;
          d2 = d1\<lparr>noteReference :=
                    filter (\<lambda>r. \<not> (nr_fromNoteId r = nw_id note \<or> nr_toNoteId r = nw_id note))
                      (noteReference d1)\<rparr>;
          oldTags = nonNull (nw_tags note);
          allTagsIds = map t_id oldTags;
          usingTags = filter (\<lambda>i. i \<noteq> 0)
                        (nonNull (map (\<lambda>r. map_option t_id (includeTag d2 r))
                                    (filter (\<lambda>r. tn_tagId r \<in> set allTagsIds) (tagsToNote d2))));
          needTobeDeledTags = difference allTagsIds usingTags;
          d3 = (if needTobeDeledTags \<noteq> []
                then d2\<lparr>tag := filter (\<lambda>t. \<not> (t_id t \<in> set needTobeDeledTags \<and>
                                               t_accountId t = accountId)) (tag d2)\<rparr>
                else d2)
      in if nw_attachments note \<noteq> []
         then d3\<lparr>attachments :=
                  filter (\<lambda>a. at_id a \<notin> set (map at_id (nw_attachments note))) (attachments d3)\<rparr>
         else d3)"

fun handleDeleteRelation :: "int \<Rightarrow> note_with_relations list \<Rightarrow> db \<Rightarrow> db" where
  "handleDeleteRelation accountId [] d = d"
| "handleDeleteRelation accountId (note # rest) d =
     handleDeleteRelation accountId rest (deleteRelation accountId note d)"

definition deleteMany :: "int \<Rightarrow> int list \<Rightarrow> db \<Rightarrow> db" where
  "deleteMany accountId ids d =
     (let found = findNotesWithRelations accountId ids d;
          d1 = handleDeleteRelation accountId found d
      in d1\<lparr>notes_table :=
              filter (\<lambda>n. \<not> (n_id n \<in> set ids \<and> n_accountId n = accountId)) (notes_table d1)\<rparr>)"

subsection \<open>addReference\<close>

definition insertNoteReference :: "int \<Rightarrow> int \<Rightarrow> int \<Rightarrow> db \<Rightarrow> (error + noteReference_row) \<times> db" where
  "insertNoteReference fromNoteId toNoteId accountId d =
     (let fromNote = find (\<lambda>n. n_id n = fromNoteId \<and> n_accountId n = accountId) (notes_table d);
          toNote = find (\<lambda>n. n_id n = toNoteId \<and> n_accountId n = accountId) (notes_table d)
      in if fromNote = None \<or> toNote = None then (Inl NoteNotFound, d)
         else (let (row, d1) = noteReference_create fromNoteId toNoteId d in (Inr row, d1)))"

definition addReference :: "int \<Rightarrow> int \<Rightarrow> int \<Rightarrow> db \<Rightarrow> (error + noteReference_row) \<times> db" where
  "addReference accountId fromNoteId toNoteId = insertNoteReference fromNoteId toNoteId accountId"


subsection \<open>The two parameters, for runs on concrete inputs\<close>

text \<open>
  Modelled from the spec: \<^verbatim>\<open>helper.buildHashTagTreeFromHashString\<close>, not among the
  sources. The spec has it build the tag tree "by interpreting /-delimited nesting in
  each hashtag into parent/child tag names": the hash signs are dropped, the rest is cut
  at each slash, and the path of names is entered into the forest, a node being shared
  by the paths that reach it.
\<close>

fun insertIntoTree :: "jsstring list \<Rightarrow> TagTreeNode list \<Rightarrow> TagTreeNode list" where
  "insertIntoTree [] nodes = nodes"
| "insertIntoTree (nm # path) [] =
     [TagTreeNode nm (if path = [] then None else Some (insertIntoTree path []))]"
| "insertIntoTree (nm # path) (TagTreeNode m ch # nodes) =
     (if m = nm then
        TagTreeNode m
          (if path = [] then ch
           else Some (insertIntoTree path (case ch of None \<Rightarrow> [] | Some cs \<Rightarrow> cs))) # nodes
      else TagTreeNode m ch # insertIntoTree (nm # path) nodes)"

definition buildTree :: "jsstring list \<Rightarrow> TagTreeNode list" where
  "buildTree paths =
     foldl (\<lambda>root p. insertIntoTree (js_split (js ''/'') [] (filter (\<lambda>c. c \<noteq> hash) p)) root) [] paths"

text \<open>On the runs, \<open>Number\<close> is the conversion of a string modelled above.\<close>

definition helpers0 :: helpers where
  "helpers0 = \<lparr>buildHashTagTreeFromHashString = buildTree, Number = stringToNumber\<rparr>"

definition newNote :: "jsstring \<Rightarrow> upsert_input" where
  "newNote content =
     \<lparr>in_content = Some content, in_type = 0, in_attachments = [], in_id = None,
      in_isArchived = None, in_isTop = None, in_isShare = None, in_isRecycle = None,
      in_references = None\<rparr>"


subsection \<open>What the claims speak of\<close>

text \<open>The tags a note is linked to, and the notes it references.\<close>

definition noteTags :: "db \<Rightarrow> int \<Rightarrow> tag_row list" where
  "noteTags d i = nonNull (map (includeTag d) (filter (\<lambda>r. tn_noteId r = i) (tagsToNote d)))"

definition referencesOf :: "db \<Rightarrow> int \<Rightarrow> int list" where
  "referencesOf d i = map nr_toNoteId (filter (\<lambda>r. nr_fromNoteId r = i) (noteReference d))"

text \<open>A step that leaves every table but tag and tagsToNote alone, and deletes no tag.\<close>

definition sameButTags :: "db \<Rightarrow> db \<Rightarrow> bool" where
  "sameButTags d d' \<longleftrightarrow>
     accounts d' = accounts d \<and> follows d' = follows d \<and> notes_table d' = notes_table d \<and>
     noteReference d' = noteReference d \<and> attachments d' = attachments d \<and>
     set (tag d) \<subseteq> set (tag d')"

text \<open>The identifiers of the tags deleteMany read with a note.\<close>

definition snapshotTagIds :: "note_with_relations \<Rightarrow> int set" where
  "snapshotTagIds s = t_id ` set (nonNull (nw_tags s))"

text \<open>
  The tag table as the store keeps it: identifiers are unique and below the sequence
  that gives the next one.
\<close>

definition wfTagIds :: "db \<Rightarrow> bool" where
  "wfTagIds d \<longleftrightarrow> distinct (map t_id (tag d)) \<and> list_all (\<lambda>t. t_id t < seq_tag d) (tag d)"

text \<open>The separator of the keys, and its first character.\<close>

definition lessThanSign :: code_unit where
  "lessThanSign = 0x3C"

definition keySeparator :: jsstring where
  "keySeparator = js ''<key>''"

subsection \<open>Stores and inputs for runs on concrete inputs\<close>

definition plainNote :: "int \<Rightarrow> int \<Rightarrow> jsstring \<Rightarrow> notes_row" where
  "plainNote i accountId content =
     \<lparr>n_id = i, n_accountId = accountId, n_content = content, n_type = 0, n_isArchived = False,
      n_isTop = False, n_isShare = False, n_isRecycle = False, n_isReviewed = False\<rparr>"

text \<open>Five notes of account 1; note 5 references the notes 1, 2 and 3.\<close>

definition dbRefs :: db where
  "dbRefs = emptyDb
     \<lparr>notes_table := [plainNote 1 1 (js ''one''), plainNote 2 1 (js ''two''),
                      plainNote 3 1 (js ''three''), plainNote 4 1 (js ''four''),
                      plainNote 5 1 (js ''five'')],
      noteReference := [\<lparr>nr_id = 1, nr_fromNoteId = 5, nr_toNoteId = 1\<rparr>,
                        \<lparr>nr_id = 2, nr_fromNoteId = 5, nr_toNoteId = 2\<rparr>,
                        \<lparr>nr_id = 3, nr_fromNoteId = 5, nr_toNoteId = 3\<rparr>],
      seq_notes := 6, seq_noteReference := 4\<rparr>"

definition updateRefs :: upsert_input where
  "updateRefs = (newNote (js ''five''))\<lparr>in_id := Some 5, in_references := Some [2, 3, 4]\<rparr>"

text \<open>A call with an id and no content, which gives a flag, a reference and an attachment.\<close>

definition archiveOnly :: upsert_input where
  "archiveOnly =
     \<lparr>in_content = None, in_type = - 1,
      in_attachments = [\<lparr>ai_name = js ''f'', ai_path = js ''/f'', ai_size = 1\<rparr>],
      in_id = Some 5, in_isArchived = Some True, in_isTop = None, in_isShare = None,
      in_isRecycle = None, in_references = Some [4]\<rparr>"

text \<open>
  Two notes of account 1: note 1 has the tags \<^verbatim>\<open>shared\<close> and \<^verbatim>\<open>own\<close>, note 2
  has the tag \<^verbatim>\<open>shared\<close>.
\<close>

definition tagShared :: tag_row where
  "tagShared = \<lparr>t_id = 1, t_name = js ''shared'', t_parent = 0, t_accountId = 1\<rparr>"

definition tagOwn :: tag_row where
  "tagOwn = \<lparr>t_id = 2, t_name = js ''own'', t_parent = 0, t_accountId = 1\<rparr>"

definition dbTags :: db where
  "dbTags = emptyDb
     \<lparr>notes_table := [plainNote 1 1 (js ''#shared #own''), plainNote 2 1 (js ''#shared'')],
      tag := [tagShared, tagOwn],
      tagsToNote := [\<lparr>tn_tagId = 1, tn_noteId = 1\<rparr>, \<lparr>tn_tagId = 2, tn_noteId = 1\<rparr>,
                     \<lparr>tn_tagId = 1, tn_noteId = 2\<rparr>],
      seq_notes := 3, seq_tag := 3\<rparr>"

definition dropOwn :: upsert_input where
  "dropOwn = (newNote (js ''#shared''))\<lparr>in_id := Some 1\<rparr>"

text \<open>
  A note whose first tag has the separator of the keys in its name, made by a call
  without an id, and the update that is then made twice.
\<close>

definition afterCreate :: db where
  "afterCreate = snd (upsert helpers0 1 (newNote (js ''#a<key>0 #a'')) emptyDb)"

definition sameUpdate :: upsert_input where
  "sameUpdate = (newNote (js ''#a''))\<lparr>in_id := Some 1\<rparr>"

definition afterFirst :: db where
  "afterFirst = snd (upsert helpers0 1 sameUpdate afterCreate)"

definition afterSecond :: db where
  "afterSecond = snd (upsert helpers0 1 sameUpdate afterFirst)"

text \<open>
  Five notes of account 1, each made by a call without an id. The fifth has a tag with
  the separator of the keys in its name and references the notes 1, 2 and 3. Then the
  update of the fifth note that gives it a content without a tag and the references 2, 3
  and 4.
\<close>

definition dbKeyRefs :: db where
  "dbKeyRefs =
     foldl (\<lambda>d input. snd (upsert helpers0 1 input d)) emptyDb
       [newNote (js ''one''), newNote (js ''two''), newNote (js ''three''), newNote (js ''four''),
        (newNote (js ''#a<key>0''))\<lparr>in_references := Some [1, 2, 3]\<rparr>]"

definition updateKeyRefs :: upsert_input where
  "updateKeyRefs = (newNote (js ''five''))\<lparr>in_id := Some 5, in_references := Some [2, 3, 4]\<rparr>"

text \<open>Note 1 belongs to account 1 and note 2 to account 2.\<close>

definition dbTwoAccounts :: db where
  "dbTwoAccounts = emptyDb
     \<lparr>notes_table := [plainNote 1 1 (js ''mine''), plainNote 2 2 (js ''theirs'')],
      seq_notes := 3\<rparr>"

definition referForeign :: upsert_input where
  "referForeign = (newNote (js ''mine''))\<lparr>in_id := Some 1, in_references := Some [2]\<rparr>"

section \<open>Properties of the hashtag extraction\<close>

lemma prefix_fence_cons:
  "prefix fence (x # b @ fence @ c) = prefix fence (x # b @ [backtick, backtick])"
proof (cases b)
  case Nil
  then show ?thesis by (simp add: fence_def)
next
  case (Cons y b')
  then show ?thesis by (cases b') (simp_all add: fence_def)
qed

lemma closeFence_block:
  "\<not> hasFence (b @ [backtick, backtick]) \<Longrightarrow> closeFence (b @ fence @ c) = Some c"
proof (induction b)
  case Nil
  then show ?case by (simp add: fence_def)
next
  case (Cons x b)
  then show ?case by (simp add: prefix_fence_cons)
qed

lemma stripFences_block:
  "\<not> hasFence (a @ [backtick, backtick]) \<Longrightarrow> \<not> hasFence (b @ [backtick, backtick]) \<Longrightarrow>
   stripFences (a @ fence @ b @ fence @ c) = a @ stripFences c"
proof (induction a)
  case Nil
  have "matchFence (backtick # backtick # backtick # b @ fence @ c) = closeFence (b @ fence @ c)"
    by (simp add: matchFence_def fence_def)
  also have "\<dots> = Some c"
    using Nil.prems(2) by (rule closeFence_block)
  finally have "stripFences (backtick # backtick # backtick # b @ fence @ c) = stripFences c"
    by simp
  then show ?case by (simp add: fence_def)
next
  case (Cons x a)
  then have "matchFence (x # a @ fence @ b @ fence @ c) = None"
    by (simp add: matchFence_def prefix_fence_cons)
  with Cons show ?case by simp
qed

lemma stripFences_no_fence: "\<not> hasFence s \<Longrightarrow> stripFences s = s"
  by (induction s) (simp_all add: matchFence_def)

lemma matchAllFrom_token:
  "t \<in> set (matchAllFrom s i) \<Longrightarrow> \<exists>j e. matchAt s j = Some e \<and> t = take (e - j) (drop j s)"
proof (induction s i rule: matchAllFrom.induct)
  case (1 s i)
  show ?case
  proof (cases "length s < i")
    case True
    with "1.prems" show ?thesis by (simp add: matchAllFrom.simps)
  next
    case False
    show ?thesis
    proof (cases "matchAt s i")
      case None
      with False "1.prems" have "t \<in> set (matchAllFrom s (i + 1))"
        by (simp add: matchAllFrom.simps [of s i])
      then show ?thesis by (rule "1.IH"(1) [OF False None])
    next
      case (Some e)
      with False "1.prems" have "t = take (e - i) (drop i s) \<or> t \<in> set (matchAllFrom s e)"
        by (simp add: matchAllFrom.simps [of s i])
      then show ?thesis
      proof
        assume "t = take (e - i) (drop i s)"
        with Some show ?thesis by blast
      next
        assume "t \<in> set (matchAllFrom s e)"
        then show ?thesis by (rule "1.IH"(2) [OF False Some])
      qed
    qed
  qed
qed

lemma matchAt_delimited:
  assumes m: "matchAt s j = Some e"
  defines "t \<equiv> take (e - j) (drop j s)"
  shows "s = take j s @ t @ drop e s"
    and "take j s = [] \<or> isSpace (last (take j s))"
    and "drop e s = [] \<or> isSpace (hd (drop e s))"
    and "\<not> suffix colonSlashSlash (take j s)"
    and "\<exists>body. t = hash # body \<and> body \<noteq> [] \<and> list_all tagChar body"
proof -
  from m have je: "j < e" "e \<le> length s" using matchAt_greater by blast+
  from m have lb: "lookbehind s j" and hj: "s ! j = hash" and jl: "j < length s"
    by (auto simp: matchAt_def split: if_splits)
  from m have e_def: "e = j + 1 + length (takeWhile tagChar (drop (j + 1) s))"
    and ne: "1 \<le> length (takeWhile tagChar (drop (j + 1) s))"
    and la: "e = length s \<or> isSpace (s ! e)"
    by (auto simp: matchAt_def Let_def split: if_splits)
  show "s = take j s @ t @ drop e s"
  proof -
    have "drop j s = take (e - j) (drop j s) @ drop (e - j) (drop j s)"
      by (rule append_take_drop_id [symmetric])
    also have "drop (e - j) (drop j s) = drop e s" using je by simp
    finally have "drop j s = t @ drop e s" by (simp add: t_def)
    then have "take j s @ drop j s = take j s @ t @ drop e s" by simp
    then show ?thesis by simp
  qed
  show "take j s = [] \<or> isSpace (last (take j s))"
  proof (cases "j = 0")
    case True
    then show ?thesis by simp
  next
    case False
    with lb have "isSpace (s ! (j - 1))" by (simp add: lookbehind_def)
    moreover have "last (take j s) = s ! (j - 1)"
    proof -
      have "take j s \<noteq> []" using False jl by auto
      then have "last (take j s) = take j s ! (length (take j s) - 1)"
        by (rule last_conv_nth)
      also have "length (take j s) = j" using jl by simp
      also have "take j s ! (j - 1) = s ! (j - 1)" using False by simp
      finally show ?thesis .
    qed
    ultimately show ?thesis by simp
  qed
  show "drop e s = [] \<or> isSpace (hd (drop e s))"
  proof (cases "e = length s")
    case True
    then show ?thesis by simp
  next
    case False
    with la je show ?thesis by (simp add: hd_drop_conv_nth)
  qed
  show "\<not> suffix colonSlashSlash (take j s)"
  proof
    assume "suffix colonSlashSlash (take j s)"
    then obtain p where p: "take j s = p @ colonSlashSlash" by (auto simp: suffix_def)
    then have "last (take j s) = 0x2F" by (simp add: colonSlashSlash_def)
    moreover from p have "take j s \<noteq> []" by (auto simp: colonSlashSlash_def)
    ultimately show False
      using \<open>take j s = [] \<or> isSpace (last (take j s))\<close> by (simp add: isSpace_def)
  qed
  show "\<exists>body. t = hash # body \<and> body \<noteq> [] \<and> list_all tagChar body"
  proof -
    let ?run = "takeWhile tagChar (drop (j + 1) s)"
    have dj: "drop j s = hash # drop (j + 1) s"
      using Cons_nth_drop_Suc [OF jl] hj by simp
    have "e - j = Suc (length ?run)" using e_def by simp
    then have "t = hash # take (length ?run) (drop (j + 1) s)"
      by (simp add: t_def dj)
    moreover have "take (length ?run) (drop (j + 1) s) = ?run"
      by (metis takeWhile_eq_take)
    ultimately have "t = hash # ?run" by simp
    moreover have "?run \<noteq> []" using ne by auto
    moreover have "list_all tagChar ?run"
      by (simp add: list_all_iff) (meson set_takeWhileD)
    ultimately show ?thesis by blast
  qed
qed


lemma stripFences_no_block: "\<not> hasBlock s \<Longrightarrow> stripFences s = s"
  by (induction s) simp_all

lemma stripFences_blocks:
  "leftmostBlocks blocks rest \<Longrightarrow> stripFences (withBlocks blocks rest) = withoutBlocks blocks rest"
proof (induction blocks)
  case Nil
  then show ?case
    by (simp add: leftmostBlocks_def withBlocks_def withoutBlocks_def stripFences_no_block)
next
  case (Cons p blocks)
  obtain a b where p: "p = (a, b)" by (cases p)
  from Cons.prems have ab: "\<not> hasFence (a @ [backtick, backtick])"
      "\<not> hasFence (b @ [backtick, backtick])"
    and r: "leftmostBlocks blocks rest"
    by (simp_all add: leftmostBlocks_def p)
  have "withBlocks (p # blocks) rest = a @ fence @ b @ fence @ withBlocks blocks rest"
    by (simp add: withBlocks_def p)
  then have "stripFences (withBlocks (p # blocks) rest) = a @ stripFences (withBlocks blocks rest)"
    using stripFences_block [OF ab] by simp
  also have "\<dots> = a @ withoutBlocks blocks rest" using Cons.IH [OF r] by simp
  finally show ?case by (simp add: withoutBlocks_def p)
qed

text \<open>Every input is cut into its blocks: the closing fence, the first block, all of them.\<close>

lemma closeFence_cut:
  "closeFence s = Some r \<Longrightarrow> \<exists>b. s = b @ fence @ r \<and> \<not> hasFence (b @ [backtick, backtick])"
proof (induction s)
  case Nil
  then show ?case by simp
next
  case (Cons x s)
  show ?case
  proof (cases "prefix fence (x # s)")
    case True
    with Cons.prems have r: "r = drop 3 (x # s)" by simp
    from True have "x # s = fence @ drop 3 (x # s)"
      by (auto simp: prefix_def fence_def)
    with r have "x # s = [] @ fence @ r" by simp
    moreover have "\<not> hasFence ([] @ [backtick, backtick])" by (simp add: fence_def)
    ultimately show ?thesis by blast
  next
    case False
    with Cons.prems have "closeFence s = Some r" by simp
    from Cons.IH [OF this] obtain b where b: "s = b @ fence @ r"
      "\<not> hasFence (b @ [backtick, backtick])"
      by blast
    from False b(1) have "\<not> prefix fence (x # b @ [backtick, backtick])"
      by (simp add: prefix_fence_cons)
    with b have "x # s = (x # b) @ fence @ r \<and> \<not> hasFence ((x # b) @ [backtick, backtick])"
      by simp
    then show ?thesis by blast
  qed
qed

lemma closeFence_closes: "closeFence (u @ fence @ v) \<noteq> None"
proof (induction u)
  case Nil
  then show ?case by (simp add: fence_def)
next
  case (Cons x u)
  then show ?case by simp
qed

lemma hasBlock_cut:
  "hasBlock s \<Longrightarrow> \<exists>a b c. s = a @ fence @ b @ fence @ c \<and>
     \<not> hasFence (a @ [backtick, backtick]) \<and> \<not> hasFence (b @ [backtick, backtick])"
proof (induction s)
  case Nil
  then show ?case by simp
next
  case (Cons x s)
  show ?case
  proof (cases "matchFence (x # s)")
    case (Some r)
    then have p: "prefix fence (x # s)" and c: "closeFence (drop 3 (x # s)) = Some r"
      by (auto simp: matchFence_def split: if_splits)
    from closeFence_cut [OF c] obtain b where b: "drop 3 (x # s) = b @ fence @ r"
      "\<not> hasFence (b @ [backtick, backtick])" by blast
    from p have "x # s = fence @ drop 3 (x # s)" by (auto simp: prefix_def fence_def)
    with b(1) have "x # s = [] @ fence @ b @ fence @ r" by simp
    moreover have "\<not> hasFence ([] @ [backtick, backtick])" by (simp add: fence_def)
    ultimately show ?thesis using b(2) by blast
  next
    case None
    with Cons.prems have "hasBlock s" by simp
    from Cons.IH [OF this] obtain a b c where s: "s = a @ fence @ b @ fence @ c"
      and a: "\<not> hasFence (a @ [backtick, backtick])" and b: "\<not> hasFence (b @ [backtick, backtick])"
      by blast
    have np: "\<not> prefix fence (x # s)"
    proof
      assume p: "prefix fence (x # s)"
      have "length fence = 3" by (simp add: fence_def)
      then have "drop 3 ((x # a @ fence @ b) @ fence @ c) = drop 3 (x # a @ fence @ b) @ fence @ c"
        by simp
      then have "drop 3 (x # s) = drop 3 (x # a @ fence @ b) @ fence @ c"
        by (simp add: s)
      then have "closeFence (drop 3 (x # s)) \<noteq> None"
        using closeFence_closes [of "drop 3 (x # a @ fence @ b)" c] by simp
      with p None show False by (simp add: matchFence_def)
    qed
    then have "\<not> prefix fence (x # a @ [backtick, backtick])"
      by (simp add: s prefix_fence_cons)
    with a have "\<not> hasFence ((x # a) @ [backtick, backtick])" by simp
    moreover have "x # s = (x # a) @ fence @ b @ fence @ c" by (simp add: s)
    ultimately show ?thesis using b by blast
  qed
qed

lemma blocks_exist: "\<exists>blocks rest. s = withBlocks blocks rest \<and> leftmostBlocks blocks rest"
proof (induction s rule: length_induct)
  case (1 s)
  show ?case
  proof (cases "hasBlock s")
    case False
    then have "s = withBlocks [] s \<and> leftmostBlocks [] s"
      by (simp add: withBlocks_def leftmostBlocks_def)
    then show ?thesis by blast
  next
    case True
    from hasBlock_cut [OF this] obtain a b c where s: "s = a @ fence @ b @ fence @ c"
      and ab: "\<not> hasFence (a @ [backtick, backtick])" "\<not> hasFence (b @ [backtick, backtick])"
      by blast
    have "length c < length s" by (simp add: s fence_def)
    with 1 obtain blocks rest where c: "c = withBlocks blocks rest" "leftmostBlocks blocks rest"
      by blast
    have "s = withBlocks ((a, b) # blocks) rest"
      by (simp add: s c(1) withBlocks_def)
    moreover have "leftmostBlocks ((a, b) # blocks) rest"
      using ab c(2) by (simp add: leftmostBlocks_def)
    ultimately show ?thesis by blast
  qed
qed

lemma extractHashtags_tokens:
  assumes "t \<in> set (extractHashtags input)"
  shows "\<exists>pre post.
        stripFences input = pre @ t @ post \<and>
        (pre = [] \<or> isSpace (last pre)) \<and>
        (post = [] \<or> isSpace (hd post)) \<and>
        \<not> suffix colonSlashSlash pre \<and>
        (\<exists>body. t = hash # body \<and> body \<noteq> [] \<and> list_all tagChar body)"
proof -
  from assms obtain j e where m: "matchAt (stripFences input) j = Some e"
    and t: "t = take (e - j) (drop j (stripFences input))"
    unfolding extractHashtags_def by (blast dest: matchAllFrom_token)
  show ?thesis
    unfolding t
    using matchAt_delimited [OF m]
    by (intro exI [of _ "take j (stripFences input)"] exI [of _ "drop e (stripFences input)"]) blast
qed

text \<open>
  Claim C1, as amended. The claim has every returned token delimited by white space or
  a string end; this holds of the text that is scanned, not of the input. Every input
  is a list of fenced blocks with the texts around them, the blocks being those the
  pattern matches from the left. For each such reading of an input, the result is the
  scan of the texts outside the blocks put end to end: what a block holds has no part
  in it. Every token of the result stands in that scanned text between \<open>pre\<close> and
  \<open>post\<close>, where \<open>pre\<close> is empty or ends with white space and does not end with
  \<^verbatim>\<open>://\<close>, \<open>post\<close> is empty or begins with white space, and the token is a hash
  sign and at least one character that is neither white space nor a hash sign.
\<close>

theorem extractHashtags_fenced_delimited:
  "(\<exists>blocks rest. input = withBlocks blocks rest \<and> leftmostBlocks blocks rest) \<and>
   (input = withBlocks blocks rest \<and> leftmostBlocks blocks rest \<longrightarrow>
      extractHashtags input = matchAllFrom (withoutBlocks blocks rest) 0 \<and>
      (\<forall>t \<in> set (extractHashtags input).
         \<exists>pre post.
           withoutBlocks blocks rest = pre @ t @ post \<and>
           (pre = [] \<or> isSpace (last pre)) \<and>
           (post = [] \<or> isSpace (hd post)) \<and>
           \<not> suffix colonSlashSlash pre \<and>
           (\<exists>body. t = hash # body \<and> body \<noteq> [] \<and> list_all tagChar body)))"
proof (intro conjI impI)
  show "\<exists>blocks rest. input = withBlocks blocks rest \<and> leftmostBlocks blocks rest"
    by (rule blocks_exist)
next
  assume a: "input = withBlocks blocks rest \<and> leftmostBlocks blocks rest"
  then have s: "stripFences input = withoutBlocks blocks rest"
    by (simp add: stripFences_blocks)
  then show "extractHashtags input = matchAllFrom (withoutBlocks blocks rest) 0"
    by (simp add: extractHashtags_def)
  show "\<forall>t \<in> set (extractHashtags input).
         \<exists>pre post.
           withoutBlocks blocks rest = pre @ t @ post \<and>
           (pre = [] \<or> isSpace (last pre)) \<and>
           (post = [] \<or> isSpace (hd post)) \<and>
           \<not> suffix colonSlashSlash pre \<and>
           (\<exists>body. t = hash # body \<and> body \<noteq> [] \<and> list_all tagChar body)"
    using extractHashtags_tokens [of _ input] unfolding s by blast
qed

theorem extractHashtags_fenced_delimited_witness:
  "extractHashtags
     (js ''see http://a#no #yes '' @ fence @ js ''#hid '' @ fence @ js '' x'' @ fence @ js '' #in ''
        @ fence @ js '' #a/b'') = [js ''#yes'', js ''#a/b''] \<and>
   (\<exists>pre post.
      js ''see http://a#no #yes  x #a/b'' = pre @ js ''#yes'' @ post \<and>
      (pre = [] \<or> isSpace (last pre)) \<and>
      (post = [] \<or> isSpace (hd post)) \<and>
      \<not> suffix colonSlashSlash pre)"
proof -
  let ?blocks = "[(js ''see http://a#no #yes '', js ''#hid ''), (js '' x'', js '' #in '')]"
  let ?rest = "js '' #a/b''"
  let ?inp = "js ''see http://a#no #yes '' @ fence @ js ''#hid '' @ fence @ js '' x'' @ fence
     @ js '' #in '' @ fence @ js '' #a/b''"
  have i: "?inp = withBlocks ?blocks ?rest"
    by (simp add: withBlocks_def)
  have l: "leftmostBlocks ?blocks ?rest"
    by code_simp
  have w: "withoutBlocks ?blocks ?rest = js ''see http://a#no #yes  x #a/b''"
    by (simp add: withoutBlocks_def js_def)
  have r: "matchAllFrom (js ''see http://a#no #yes  x #a/b'') 0 = [js ''#yes'', js ''#a/b'']"
    by code_simp
  from extractHashtags_fenced_delimited [of ?inp ?blocks ?rest] i l
  have e: "extractHashtags ?inp = [js ''#yes'', js ''#a/b'']"
    and d: "\<forall>t \<in> set (extractHashtags ?inp).
         \<exists>pre post.
           js ''see http://a#no #yes  x #a/b'' = pre @ t @ post \<and>
           (pre = [] \<or> isSpace (last pre)) \<and>
           (post = [] \<or> isSpace (hd post)) \<and>
           \<not> suffix colonSlashSlash pre \<and>
           (\<exists>body. t = hash # body \<and> body \<noteq> [] \<and> list_all tagChar body)"
    unfolding w r by blast+
  from d have "\<exists>pre post.
           js ''see http://a#no #yes  x #a/b'' = pre @ js ''#yes'' @ post \<and>
           (pre = [] \<or> isSpace (last pre)) \<and>
           (post = [] \<or> isSpace (hd post)) \<and>
           \<not> suffix colonSlashSlash pre"
    unfolding e by fastforce
  with e show ?thesis by blast
qed

text \<open>
  Claim C1 as stated fails, because a removed block leaves nothing behind, white space
  neither: the texts before and after it meet in the scanned text. The tag returned for
  the first input stands in the input right after the closing fence of a block: nowhere
  in the input does it follow white space or the start. The tag returned for the second
  input is joined from the texts on the two sides of a block, and is not in the input.
\<close>

theorem extractHashtags_block_boundary_counterexample:
  "extractHashtags (fence @ js ''x'' @ fence @ js ''#tag'') = [js ''#tag''] \<and>
   \<not> (\<exists>pre post. fence @ js ''x'' @ fence @ js ''#tag'' = pre @ js ''#tag'' @ post \<and>
         (pre = [] \<or> isSpace (last pre))) \<and>
   extractHashtags (js ''#ab'' @ fence @ js ''x'' @ fence @ js ''cd'') = [js ''#abcd''] \<and>
   \<not> sublist (js ''#abcd'') (js ''#ab'' @ fence @ js ''x'' @ fence @ js ''cd'')"
proof -
  have 1: "extractHashtags (fence @ js ''x'' @ fence @ js ''#tag'') = [js ''#tag'']"
    by code_simp
  have 2: "\<not> (\<exists>pre post. fence @ js ''x'' @ fence @ js ''#tag'' = pre @ js ''#tag'' @ post \<and>
         (pre = [] \<or> isSpace (last pre)))"
  proof
    assume "\<exists>pre post. fence @ js ''x'' @ fence @ js ''#tag'' = pre @ js ''#tag'' @ post \<and>
        (pre = [] \<or> isSpace (last pre))"
    then obtain pre post where e: "fence @ js ''x'' @ fence @ js ''#tag'' = pre @ js ''#tag'' @ post"
      and d: "pre = [] \<or> isSpace (last pre)" by blast
    let ?X = "[0x60, 0x60, 0x60, 0x78, 0x60, 0x60, 0x60, 0x23, 0x74, 0x61, 0x67] :: jsstring"
    have L: "fence @ js ''x'' @ fence @ js ''#tag'' = ?X"
      by (simp add: fence_def backtick_def js_def)
    have T: "js ''#tag'' = [0x23, 0x74, 0x61, 0x67]" by (simp add: js_def)
    from e L have e': "pre @ js ''#tag'' @ post = ?X" by simp
    then have "length (pre @ js ''#tag'' @ post) = 11" by simp
    then have "length pre \<le> 7" by (simp add: T)
    then consider "length pre = 0" | "length pre = 1" | "length pre = 2" | "length pre = 3"
      | "length pre = 4" | "length pre = 5" | "length pre = 6" | "length pre = 7" by linarith
    moreover from e' have pt: "pre = take (length pre) ?X"
      and tt: "js ''#tag'' @ post = drop (length pre) ?X"
      by (simp_all add: append_eq_conv_conj)
    ultimately show False
    proof cases
      case 1 with tt show False by (simp add: T)
    next
      case 2 with tt show False by (simp add: T)
    next
      case 3 with tt show False by (simp add: T)
    next
      case 4 with tt show False by (simp add: T)
    next
      case 5 with tt show False by (simp add: T)
    next
      case 6 with tt show False by (simp add: T)
    next
      case 7 with tt show False by (simp add: T)
    next
      case 8
      with pt have "pre = [0x60, 0x60, 0x60, 0x78, 0x60, 0x60, 0x60]" by simp
      with d show False by (simp add: isSpace_def)
    qed
  qed
  have 3: "extractHashtags (js ''#ab'' @ fence @ js ''x'' @ fence @ js ''cd'') = [js ''#abcd'']"
    by code_simp
  have 4: "\<not> sublist (js ''#abcd'') (js ''#ab'' @ fence @ js ''x'' @ fence @ js ''cd'')"
    by code_simp
  from 1 2 3 4 show ?thesis by blast
qed

section \<open>Properties of the follow service\<close>

lemma transaction_Inl:
  "callback d = (Inl e, d') \<Longrightarrow>
   transaction callback d =
     (Inl e, d\<lparr>seq_follows := seq_follows d', seq_notes := seq_notes d', seq_tag := seq_tag d',
               seq_noteReference := seq_noteReference d', seq_attachments := seq_attachments d'\<rparr>)"
  by (simp add: transaction_def)

lemma transaction_Inr: "callback d = (Inr x, d') \<Longrightarrow> transaction callback d = (Inr x, d')"
  by (simp add: transaction_def)

lemma transaction_unchanged: "callback d = (Inl e, d) \<Longrightarrow> transaction callback d = (Inl e, d)"
  by (simp add: transaction_def)

lemma find_None_filter: "find P xs = None \<Longrightarrow> filter P xs = []"
  by (induction xs) (auto split: if_splits)

lemma find_append_new: "find P xs = None \<Longrightarrow> P x \<Longrightarrow> find P (xs @ [x]) = Some x"
  by (induction xs) (auto split: if_splits)

text \<open>
  Claim C5, as amended. The claim has \<open>follow\<close> fail with a conflict whether or not
  the remote site can be reached. The code asks the remote site for its site info before
  it looks for an existing row, so the conflict is reported only when that request is
  answered: when both addresses parse, the remote site answers and a "following" row
  exists for the caller and the site's origin, \<open>follow\<close> fails with a conflict and
  leaves the store as it was.
\<close>

theorem follow_existing_conflict:
  assumes "urlOrigin rm siteUrl0 = Some siteUrl"
    and "urlOrigin rm mySiteUrl0 = Some mySiteUrl"
    and "httpGet rm (siteUrl @ js ''/api/v1/public/site-info'') = Some siteInfo"
    and "find (followingOf siteUrl accountId) (follows d) = Some existingFollow"
  shows "follow rm accountId siteUrl0 mySiteUrl0 d = (Inl Conflict, d)"
proof -
  have "follow_callback rm accountId siteUrl0 mySiteUrl0 d = (Inl Conflict, d)"
    using assms by (simp add: follow_callback_def)
  then show ?thesis
    unfolding follow_def by (rule transaction_unchanged)
qed

theorem follow_existing_conflict_witness:
  "follow remoteUp 1 siteB siteA (emptyDb\<lparr>follows := [followingB], seq_follows := 2\<rparr>) =
     (Inl Conflict, emptyDb\<lparr>follows := [followingB], seq_follows := 2\<rparr>)"
proof -
  have "find (followingOf siteB 1) (follows (emptyDb\<lparr>follows := [followingB], seq_follows := 2\<rparr>)) =
    Some followingB"
    by (simp add: followingOf_def followingB_def)
  then show ?thesis
    by (intro follow_existing_conflict [where siteUrl = siteB and mySiteUrl = siteA and siteInfo = siteInfoB])
      (simp_all add: remoteUp_def knownOrigin_def)
qed

text \<open>
  Claim C5 as stated fails: with a "following" row for account 1 and site B in the store
  and site B not answering, \<open>follow\<close> fails with the error of the request, not with
  a conflict.
\<close>

theorem follow_conflict_unreachable_counterexample:
  "find (followingOf siteB 1) (follows (emptyDb\<lparr>follows := [followingB], seq_follows := 2\<rparr>)) =
     Some followingB \<and>
   follow remoteDown 1 siteB siteA (emptyDb\<lparr>follows := [followingB], seq_follows := 2\<rparr>) =
     (Inl HttpError, emptyDb\<lparr>follows := [followingB], seq_follows := 2\<rparr>)"
  by (simp add: followingOf_def followingB_def follow_def transaction_def follow_callback_def
      remoteDown_def knownOrigin_def)

text \<open>
  Claim C6, as amended. Whenever \<open>follow\<close> fails, the follows table is as it was
  before the call. In particular, when the notification fails after the callback created
  the "following" row, the error goes to the caller and the row is rolled back with the
  transaction: no local follow row remains.
\<close>

theorem follow_error_rolls_back:
  "(follow rm accountId siteUrl0 mySiteUrl0 d = (Inl e, d') \<longrightarrow>
      follows d' = follows d \<and> accounts d' = accounts d) \<and>
   (urlOrigin rm siteUrl0 = Some siteUrl \<and> urlOrigin rm mySiteUrl0 = Some mySiteUrl \<and>
    httpGet rm (siteUrl @ js ''/api/v1/public/site-info'') = Some siteInfo \<and>
    find (followingOf siteUrl accountId) (follows d) = None \<and>
    (\<forall>body. \<not> httpPost rm (siteUrl @ js ''/api/v1/follows/follow-from'') body) \<longrightarrow>
      (\<exists>d1. follow_callback rm accountId siteUrl0 mySiteUrl0 d = (Inl HttpError, d1) \<and>
            filter (followingOf siteUrl accountId) (follows d1) \<noteq> []) \<and>
      fst (follow rm accountId siteUrl0 mySiteUrl0 d) = Inl HttpError \<and>
      follows (snd (follow rm accountId siteUrl0 mySiteUrl0 d)) = follows d)"
proof -
  have rb: "follows d' = follows d \<and> accounts d' = accounts d"
    if "follow rm accountId siteUrl0 mySiteUrl0 d = (Inl e, d')"
    using that by (auto simp: follow_def transaction_def split: prod.splits sum.splits)
  have post: "(\<exists>d1. follow_callback rm accountId siteUrl0 mySiteUrl0 d = (Inl HttpError, d1) \<and>
            filter (followingOf siteUrl accountId) (follows d1) \<noteq> []) \<and>
      fst (follow rm accountId siteUrl0 mySiteUrl0 d) = Inl HttpError \<and>
      follows (snd (follow rm accountId siteUrl0 mySiteUrl0 d)) = follows d"
    if a: "urlOrigin rm siteUrl0 = Some siteUrl \<and> urlOrigin rm mySiteUrl0 = Some mySiteUrl \<and>
      httpGet rm (siteUrl @ js ''/api/v1/public/site-info'') = Some siteInfo \<and>
      find (followingOf siteUrl accountId) (follows d) = None \<and>
      (\<forall>body. \<not> httpPost rm (siteUrl @ js ''/api/v1/follows/follow-from'') body)"
  proof -
    from a have cb: "\<exists>d1. follow_callback rm accountId siteUrl0 mySiteUrl0 d = (Inl HttpError, d1) \<and>
            filter (followingOf siteUrl accountId) (follows d1) \<noteq> []"
      by (simp add: follow_callback_def follows_create_def Let_def followingOf_def)
    then obtain d1 where "follow_callback rm accountId siteUrl0 mySiteUrl0 d = (Inl HttpError, d1)"
      by blast
    then have t: "follow rm accountId siteUrl0 mySiteUrl0 d =
      (Inl HttpError, d\<lparr>seq_follows := seq_follows d1, seq_notes := seq_notes d1, seq_tag := seq_tag d1,
               seq_noteReference := seq_noteReference d1, seq_attachments := seq_attachments d1\<rparr>)"
      unfolding follow_def by (rule transaction_Inl)
    from cb show ?thesis by (simp add: t)
  qed
  from rb post show ?thesis by blast
qed

theorem follow_error_rolls_back_witness:
  "follows (snd (follow remoteGetOnly 1 siteB siteA emptyDb)) = follows emptyDb \<and>
   fst (follow remoteGetOnly 1 siteB siteA emptyDb) = Inl HttpError"
proof -
  have "find (followingOf siteB 1) (follows emptyDb) = None"
    by (simp add: emptyDb_def)
  with follow_error_rolls_back [of remoteGetOnly 1 siteB siteA emptyDb HttpError
      "snd (follow remoteGetOnly 1 siteB siteA emptyDb)" siteB siteA siteInfoB]
  show ?thesis by (simp add: remoteGetOnly_def knownOrigin_def)
qed

text \<open>
  Claim C6 as stated fails: the notification is sent inside the transaction's callback.
  With site B answering the site-info request and failing the notification, the callback
  has created the row when it throws, and after \<open>follow\<close> the store holds no
  follow row.
\<close>

theorem follow_notification_failure_counterexample:
  "fst (follow_callback remoteGetOnly 1 siteB siteA emptyDb) = Inl HttpError \<and>
   follows (snd (follow_callback remoteGetOnly 1 siteB siteA emptyDb)) = [followingB] \<and>
   fst (follow remoteGetOnly 1 siteB siteA emptyDb) = Inl HttpError \<and>
   follows (snd (follow remoteGetOnly 1 siteB siteA emptyDb)) = []"
  by (simp add: follow_def transaction_def follow_callback_def remoteGetOnly_def knownOrigin_def emptyDb_def
      followingOf_def follows_create_def followingB_def siteInfoB_def Let_def)

text \<open>
  Claim C7. When a "follower" row exists for the origin of the site and the account,
  \<open>followFrom\<close> returns the first such row and leaves the store as it was. When none
  exists, the call creates one row; a second call with the same input returns that row
  and changes nothing, and the store holds that one row for the site and the account.
  When the address does not parse, the call throws and changes nothing.
\<close>

theorem followFrom_idempotent:
  "(urlOrigin rm siteUrl0 = Some siteUrl \<and>
    find (followerOf siteUrl mySiteAccountId) (follows d) = Some existingFollow \<longrightarrow>
      followFrom rm mySiteAccountId siteUrl0 siteName siteAvatar d =
        (Inr \<lparr>success = True, data = existingFollow\<rparr>, d)) \<and>
   (urlOrigin rm siteUrl0 = Some siteUrl \<and>
    find (followerOf siteUrl mySiteAccountId) (follows d) = None \<longrightarrow>
      (\<exists>row d1.
         followFrom rm mySiteAccountId siteUrl0 siteName siteAvatar d =
           (Inr \<lparr>success = True, data = row\<rparr>, d1) \<and>
         followFrom rm mySiteAccountId siteUrl0 siteName siteAvatar d1 =
           (Inr \<lparr>success = True, data = row\<rparr>, d1) \<and>
         follows d1 = follows d @ [row] \<and>
         filter (followerOf siteUrl mySiteAccountId) (follows d1) = [row])) \<and>
   (urlOrigin rm siteUrl0 = None \<longrightarrow>
      followFrom rm mySiteAccountId siteUrl0 siteName siteAvatar d = (Inl TypeError, d))"
proof (intro conjI impI)
  assume "urlOrigin rm siteUrl0 = None"
  then have "followFrom_callback rm mySiteAccountId siteUrl0 siteName siteAvatar d = (Inl TypeError, d)"
    by (simp add: followFrom_callback_def)
  then show "followFrom rm mySiteAccountId siteUrl0 siteName siteAvatar d = (Inl TypeError, d)"
    unfolding followFrom_def by (rule transaction_unchanged)
next
  assume "urlOrigin rm siteUrl0 = Some siteUrl \<and>
    find (followerOf siteUrl mySiteAccountId) (follows d) = Some existingFollow"
  then have "followFrom_callback rm mySiteAccountId siteUrl0 siteName siteAvatar d =
    (Inr \<lparr>success = True, data = existingFollow\<rparr>, d)"
    by (simp add: followFrom_callback_def)
  then show "followFrom rm mySiteAccountId siteUrl0 siteName siteAvatar d =
        (Inr \<lparr>success = True, data = existingFollow\<rparr>, d)"
    unfolding followFrom_def by (rule transaction_Inr)
next
  assume a: "urlOrigin rm siteUrl0 = Some siteUrl \<and>
    find (followerOf siteUrl mySiteAccountId) (follows d) = None"
  define row where "row = \<lparr>fw_id = seq_follows d, fw_siteName = Some siteName, fw_siteUrl = siteUrl,
     fw_siteAvatar = Some siteAvatar, fw_followType = Follower, fw_accountId = mySiteAccountId\<rparr>"
  define d1 where "d1 = d\<lparr>follows := follows d @ [row], seq_follows := seq_follows d + 1\<rparr>"
  have P: "followerOf siteUrl mySiteAccountId row"
    by (simp add: followerOf_def row_def)
  from a have "followFrom_callback rm mySiteAccountId siteUrl0 siteName siteAvatar d =
    (Inr \<lparr>success = True, data = row\<rparr>, d1)"
    by (simp add: followFrom_callback_def follows_create_def row_def d1_def Let_def)
  then have first: "followFrom rm mySiteAccountId siteUrl0 siteName siteAvatar d =
    (Inr \<lparr>success = True, data = row\<rparr>, d1)"
    unfolding followFrom_def by (rule transaction_Inr)
  have f1: "find (followerOf siteUrl mySiteAccountId) (follows d1) = Some row"
    using a P by (simp add: d1_def find_append_new)
  with a have "followFrom_callback rm mySiteAccountId siteUrl0 siteName siteAvatar d1 =
    (Inr \<lparr>success = True, data = row\<rparr>, d1)"
    by (simp add: followFrom_callback_def)
  then have second: "followFrom rm mySiteAccountId siteUrl0 siteName siteAvatar d1 =
    (Inr \<lparr>success = True, data = row\<rparr>, d1)"
    unfolding followFrom_def by (rule transaction_Inr)
  have "filter (followerOf siteUrl mySiteAccountId) (follows d1) = [row]"
    using a P by (simp add: d1_def find_None_filter)
  with first second show "\<exists>row d1.
         followFrom rm mySiteAccountId siteUrl0 siteName siteAvatar d =
           (Inr \<lparr>success = True, data = row\<rparr>, d1) \<and>
         followFrom rm mySiteAccountId siteUrl0 siteName siteAvatar d1 =
           (Inr \<lparr>success = True, data = row\<rparr>, d1) \<and>
         follows d1 = follows d @ [row] \<and>
         filter (followerOf siteUrl mySiteAccountId) (follows d1) = [row]"
    by (intro exI [of _ row] exI [of _ d1]) (simp add: d1_def)
qed

theorem followFrom_idempotent_witness:
  "followFrom remoteUp 7 siteA (js ''A'') (js ''/a.png'') (emptyDb\<lparr>follows := [followerA], seq_follows := 2\<rparr>) =
     (Inr \<lparr>success = True, data = followerA\<rparr>, emptyDb\<lparr>follows := [followerA], seq_follows := 2\<rparr>) \<and>
   (\<exists>row d1.
      followFrom remoteUp 7 siteA (js ''A'') (js ''/a.png'') emptyDb = (Inr \<lparr>success = True, data = row\<rparr>, d1) \<and>
      followFrom remoteUp 7 siteA (js ''A'') (js ''/a.png'') d1 = (Inr \<lparr>success = True, data = row\<rparr>, d1) \<and>
      follows d1 = [row] \<and>
      filter (followerOf siteA 7) (follows d1) = [row]) \<and>
   followFrom remoteUp 7 (js ''nowhere'') (js ''A'') (js ''/a.png'') emptyDb = (Inl TypeError, emptyDb)"
proof -
  have p: "urlOrigin remoteUp (js ''nowhere'') = None"
    by (simp add: remoteUp_def knownOrigin_def siteA_def siteB_def js_def)
  from followFrom_idempotent [of remoteUp "js ''nowhere''" siteA 7 emptyDb followerA "js ''A''" "js ''/a.png''"] p
  have 3: "followFrom remoteUp 7 (js ''nowhere'') (js ''A'') (js ''/a.png'') emptyDb = (Inl TypeError, emptyDb)"
    by blast
  have a: "find (followerOf siteA 7) (follows (emptyDb\<lparr>follows := [followerA], seq_follows := 2\<rparr>)) =
    Some followerA"
    by (simp add: followerOf_def followerA_def)
  have b: "find (followerOf siteA 7) (follows emptyDb) = None"
    by (simp add: emptyDb_def)
  have o: "urlOrigin remoteUp siteA = Some siteA"
    by (simp add: remoteUp_def knownOrigin_def)
  from followFrom_idempotent [of remoteUp siteA siteA 7
      "emptyDb\<lparr>follows := [followerA], seq_follows := 2\<rparr>" followerA "js ''A''" "js ''/a.png''"] a o
  have 1: "followFrom remoteUp 7 siteA (js ''A'') (js ''/a.png'') (emptyDb\<lparr>follows := [followerA], seq_follows := 2\<rparr>) =
     (Inr \<lparr>success = True, data = followerA\<rparr>, emptyDb\<lparr>follows := [followerA], seq_follows := 2\<rparr>)"
    by blast
  from followFrom_idempotent [of remoteUp siteA siteA 7 emptyDb followerA "js ''A''" "js ''/a.png''"] b o
  have 2: "\<exists>row d1.
      followFrom remoteUp 7 siteA (js ''A'') (js ''/a.png'') emptyDb = (Inr \<lparr>success = True, data = row\<rparr>, d1) \<and>
      followFrom remoteUp 7 siteA (js ''A'') (js ''/a.png'') d1 = (Inr \<lparr>success = True, data = row\<rparr>, d1) \<and>
      follows d1 = [row] \<and>
      filter (followerOf siteA 7) (follows d1) = [row]"
    by (simp add: emptyDb_def)
  from 1 2 3 show ?thesis by blast
qed


section \<open>Properties of the note service\<close>

subsection \<open>What each step leaves alone\<close>

lemma sameButTags_refl: "sameButTags d d"
  by (simp add: sameButTags_def)

lemma sameButTags_trans: "sameButTags d d1 \<Longrightarrow> sameButTags d1 d2 \<Longrightarrow> sameButTags d d2"
  by (auto simp: sameButTags_def)

lemma tag_create_same: "tag_create nm parent a d = (t, d1) \<Longrightarrow> sameButTags d d1"
  by (auto simp: tag_create_def sameButTags_def Let_def)

lemma tagsToNote_create_same: "tagsToNote_create tid nid d = (r, d1) \<Longrightarrow> sameButTags d d1"
  by (auto simp: tagsToNote_create_def sameButTags_def split: if_splits)

lemma linkedTag_same: "linkedTag a n nm p d = (r, d') \<Longrightarrow> sameButTags d d'"
  unfolding linkedTag_def Let_def
  by (auto split: option.splits prod.splits if_splits sum.splits
      dest!: tag_create_same tagsToNote_create_same
      intro: sameButTags_refl sameButTags_trans)

lemma handleAddTags_same:
  "handleAddTags a n tree p nt d = (r, d') \<Longrightarrow> sameButTags d d'"
proof (induction a n tree p nt d arbitrary: r d' rule: handleAddTags.induct)
  case (1 accountId noteId parentTag newTags d)
  then show ?case by (simp add: sameButTags_refl)
next
  case (2 accountId noteId nm ch rest parentTag newTags d)
  obtain r2 d2 where l: "linkedTag accountId noteId nm parentTag d = (r2, d2)"
    by (cases "linkedTag accountId noteId nm parentTag d")
  then have s2: "sameButTags d d2" by (rule linkedTag_same)
  show ?case
  proof (cases r2)
    case (Inl e)
    with l "2.prems" s2 show ?thesis by simp
  next
    case (Inr hasTag)
    note r2 = this
    obtain r3 d3 where c: "(case ch of None \<Rightarrow> (Inr newTags, d2)
        | Some cs \<Rightarrow> handleAddTags accountId noteId cs (Some hasTag) newTags d2) = (r3, d3)"
      by (cases "case ch of None \<Rightarrow> (Inr newTags, d2)
        | Some cs \<Rightarrow> handleAddTags accountId noteId cs (Some hasTag) newTags d2")
    have s3: "sameButTags d2 d3"
    proof (cases ch)
      case None
      with c show ?thesis by (simp add: sameButTags_refl)
    next
      case (Some cs)
      with c have "handleAddTags accountId noteId cs (Some hasTag) newTags d2 = (r3, d3)" by simp
      then show ?thesis by (rule "2.IH"(1) [OF l [symmetric] r2 Some])
    qed
    show ?thesis
    proof (cases r3)
      case (Inl e)
      with l r2 c "2.prems" have "d' = d3" by simp
      with s2 s3 show ?thesis by (blast intro: sameButTags_trans)
    next
      case (Inr newTags3)
      with l r2 c "2.prems"
      have "handleAddTags accountId noteId rest parentTag (newTags3 @ [hasTag]) d3 = (r, d')"
        by simp
      then have "sameButTags d3 d'"
        by (rule "2.IH"(2) [OF l [symmetric] r2 c [symmetric] Inr])
      with s2 s3 show ?thesis by (blast intro: sameButTags_trans)
    qed
  qed
qed

lemma n_id_updateData [simp]: "n_id (updateData input c n) = n_id n"
  by (simp add: updateData_def)

lemma attachments_createMany_frame [simp]:
  "accounts (attachments_createMany n atts d) = accounts d"
  "follows (attachments_createMany n atts d) = follows d"
  "notes_table (attachments_createMany n atts d) = notes_table d"
  "tag (attachments_createMany n atts d) = tag d"
  "tagsToNote (attachments_createMany n atts d) = tagsToNote d"
  "noteReference (attachments_createMany n atts d) = noteReference d"
  by (induction n atts d rule: attachments_createMany.induct) simp_all

lemma insertAttachments_frame [simp]:
  "accounts (insertAttachments n atts d) = accounts d"
  "follows (insertAttachments n atts d) = follows d"
  "notes_table (insertAttachments n atts d) = notes_table d"
  "tag (insertAttachments n atts d) = tag d"
  "tagsToNote (insertAttachments n atts d) = tagsToNote d"
  "noteReference (insertAttachments n atts d) = noteReference d"
  by (simp_all add: insertAttachments_def Let_def)

lemma noteReference_createMany_frame [simp]:
  "accounts (noteReference_createMany n ts d) = accounts d"
  "follows (noteReference_createMany n ts d) = follows d"
  "notes_table (noteReference_createMany n ts d) = notes_table d"
  "tag (noteReference_createMany n ts d) = tag d"
  "tagsToNote (noteReference_createMany n ts d) = tagsToNote d"
  "attachments (noteReference_createMany n ts d) = attachments d"
  by (induction n ts d rule: noteReference_createMany.induct)
    (simp_all add: noteReference_create_def Let_def)

lemma deleteUnusedTags_frame [simp]:
  "accounts (deleteUnusedTags a old d) = accounts d"
  "follows (deleteUnusedTags a old d) = follows d"
  "notes_table (deleteUnusedTags a old d) = notes_table d"
  "tagsToNote (deleteUnusedTags a old d) = tagsToNote d"
  "noteReference (deleteUnusedTags a old d) = noteReference d"
  "attachments (deleteUnusedTags a old d) = attachments d"
  by (simp_all add: deleteUnusedTags_def Let_def)

lemma addRelationTags_frame [simp]:
  "accounts (addRelationTags h n nt ks d) = accounts d"
  "follows (addRelationTags h n nt ks d) = follows d"
  "notes_table (addRelationTags h n nt ks d) = notes_table d"
  "tag (addRelationTags h n nt ks d) = tag d"
  "noteReference (addRelationTags h n nt ks d) = noteReference d"
  "attachments (addRelationTags h n nt ks d) = attachments d"
  by (induction h n nt ks d rule: addRelationTags.induct)
    (simp_all add: tagsToNote_create_def Let_def)

lemma deleteRelationTags_frame:
  "deleteRelationTags h n old ks d = (r, d') \<Longrightarrow>
   accounts d' = accounts d \<and> follows d' = follows d \<and> notes_table d' = notes_table d \<and>
   tag d' = tag d \<and> noteReference d' = noteReference d \<and> attachments d' = attachments d"
  by (auto simp: deleteRelationTags_def split: if_splits sum.splits)

lemma notes_update_Inr:
  "notes_update i a upd d = (Inr note, d1) \<Longrightarrow>
   (\<exists>n. find (\<lambda>n. n_id n = i \<and> n_accountId n = a) (notes_table d) = Some n \<and> note = upd n) \<and>
   d1 = d\<lparr>notes_table := map (\<lambda>m. if n_id m = i \<and> n_accountId m = a then upd m else m) (notes_table d)\<rparr>"
  by (auto simp: notes_update_def split: option.splits)

lemma notes_update_Inl: "notes_update i a upd d = (Inl e, d1) \<Longrightarrow> d1 = d"
  by (auto simp: notes_update_def split: option.splits)

subsection \<open>A call with an id and no content\<close>

text \<open>
  Claim C9. A call of upsert with an id (one that is not 0, which the test
  \<^verbatim>\<open>if (id)\<close> takes for no id) and a null content either fails with P2025, when the
  caller has no note of that id, and changes nothing, or returns undefined after it
  wrote to the rows of that id the type (unless it is -1) and the flags isArchived,
  isTop, isShare and isRecycle that are not null, and nothing else: the content of the
  note, the tags, the links of tags to notes, the references and the attachments are as
  before, whatever references and attachments the input gives.
\<close>

theorem upsert_null_content_only_flags:
  assumes "in_id input = Some i" and "i \<noteq> 0" and "in_content input = None"
  shows "upsert h accountId input d =
     (case find (\<lambda>n. n_id n = i \<and> n_accountId n = accountId) (notes_table d) of
        None \<Rightarrow> (Inl P2025, d)
      | Some n \<Rightarrow>
          (Inr ReturnsUndefined,
           d\<lparr>notes_table :=
               map (\<lambda>m. if n_id m = i \<and> n_accountId m = accountId
                         then m\<lparr>n_type := (if in_type input \<noteq> - 1 then in_type input else n_type m),
                                n_isArchived := (case in_isArchived input of None \<Rightarrow> n_isArchived m | Some b \<Rightarrow> b),
                                n_isTop := (case in_isTop input of None \<Rightarrow> n_isTop m | Some b \<Rightarrow> b),
                                n_isShare := (case in_isShare input of None \<Rightarrow> n_isShare m | Some b \<Rightarrow> b),
                                n_isRecycle := (case in_isRecycle input of None \<Rightarrow> n_isRecycle m | Some b \<Rightarrow> b)\<rparr>
                         else m)
                 (notes_table d)\<rparr>)) \<and>
     tag (snd (upsert h accountId input d)) = tag d \<and>
     tagsToNote (snd (upsert h accountId input d)) = tagsToNote d \<and>
     noteReference (snd (upsert h accountId input d)) = noteReference d \<and>
     attachments (snd (upsert h accountId input d)) = attachments d"
  using assms
  by (simp add: upsert_def truthy_def upsert_update_def notes_update_def updateData_def Let_def
      split: option.splits)

theorem upsert_null_content_only_flags_witness:
  "upsert helpers0 1 archiveOnly dbRefs =
     (Inr ReturnsUndefined,
      dbRefs\<lparr>notes_table := [plainNote 1 1 (js ''one''), plainNote 2 1 (js ''two''),
                      plainNote 3 1 (js ''three''), plainNote 4 1 (js ''four''),
                      (plainNote 5 1 (js ''five''))\<lparr>n_isArchived := True\<rparr>]\<rparr>) \<and>
   noteReference (snd (upsert helpers0 1 archiveOnly dbRefs)) = noteReference dbRefs \<and>
   attachments (snd (upsert helpers0 1 archiveOnly dbRefs)) = []"
proof -
  have i: "in_id archiveOnly = Some 5" "in_content archiveOnly = None"
    by (simp_all add: archiveOnly_def)
  from upsert_null_content_only_flags [OF i(1) _ i(2), of helpers0 1 dbRefs]
  show ?thesis
    by (simp add: archiveOnly_def dbRefs_def plainNote_def emptyDb_def)
qed

subsection \<open>A call without an id\<close>

text \<open>An id of 0 is no id: the call creates a note.\<close>

lemma upsert_id_zero:
  "in_id input = Some 0 \<Longrightarrow> upsert h accountId input d = upsert h accountId (input\<lparr>in_id := None\<rparr>) d"
  by (simp add: upsert_def truthy_def upsert_create_def Let_def split: prod.splits sum.splits)


text \<open>
  Claim C10. In a call of upsert without an id the inputs isArchived and isRecycle are
  not read: any two values for them give the same result and the same store. The call
  adds one note, which is neither archived nor recycled, and which is shared (pinned)
  exactly when isShare (isTop) is true: null is stored as false.
\<close>

theorem upsert_create_ignores_archive_recycle:
  assumes "in_id input = None"
  shows "upsert h accountId (input\<lparr>in_isArchived := x, in_isRecycle := y\<rparr>) d = upsert h accountId input d \<and>
     (\<exists>note. notes_table (snd (upsert h accountId input d)) = notes_table d @ [note] \<and>
        \<not> n_isArchived note \<and> \<not> n_isRecycle note \<and>
        n_isShare note = (in_isShare input = Some True) \<and>
        n_isTop note = (in_isTop input = Some True))"
proof -
  have 1: "upsert h accountId (input\<lparr>in_isArchived := x, in_isRecycle := y\<rparr>) d = upsert h accountId input d"
    using assms
    by (simp add: upsert_def truthy_def upsert_create_def Let_def split: prod.splits sum.splits)
  define content where "content = map_option sanitize (in_content input)"
  define tagTree where "tagTree = buildHashTagTreeFromHashString h (extractHashtags (hashtagSource content))"
  define created where "created = fst (notes_create (case content of None \<Rightarrow> [] | Some c \<Rightarrow> c) (in_type input) accountId
              (in_isShare input = Some True) (in_isTop input = Some True) d)"
  define d1 where "d1 = snd (notes_create (case content of None \<Rightarrow> [] | Some c \<Rightarrow> c) (in_type input) accountId
              (in_isShare input = Some True) (in_isTop input = Some True) d)"
  have nt1: "notes_table d1 = notes_table d @ [created]"
    by (simp add: d1_def created_def notes_create_def Let_def)
  have flags: "\<not> n_isArchived created \<and> \<not> n_isRecycle created \<and>
        n_isShare created = (in_isShare input = Some True) \<and>
        n_isTop created = (in_isTop input = Some True)"
    by (simp add: created_def notes_create_def Let_def)
  obtain r2 d2 where hat: "handleAddTags accountId (Some (n_id created)) tagTree None [] d1 = (r2, d2)"
    by (cases "handleAddTags accountId (Some (n_id created)) tagTree None [] d1")
  then have "sameButTags d1 d2" by (rule handleAddTags_same)
  then have nt2: "notes_table d2 = notes_table d1" by (simp add: sameButTags_def)
  have "notes_table (snd (upsert h accountId input d)) = notes_table d2"
    using assms hat
    by (simp add: upsert_def truthy_def upsert_create_def content_def [symmetric]
        tagTree_def [symmetric] split_beta created_def [symmetric] d1_def [symmetric] Let_def
        split: sum.splits option.splits)
  with nt1 nt2 flags 1 show ?thesis by simp
qed

theorem upsert_create_ignores_archive_recycle_witness:
  "upsert helpers0 1 ((newNote (js ''hi''))\<lparr>in_isArchived := Some True, in_isRecycle := Some True\<rparr>) emptyDb =
     upsert helpers0 1 (newNote (js ''hi'')) emptyDb \<and>
   notes_table (snd (upsert helpers0 1 (newNote (js ''hi'')) emptyDb)) = [plainNote 1 1 (js ''hi'')]"
proof -
  have i: "in_id (newNote (js ''hi'')) = None"
    by (simp add: newNote_def)
  have e: "notes_table (snd (upsert helpers0 1 (newNote (js ''hi'')) emptyDb)) = [plainNote 1 1 (js ''hi'')]"
    by code_simp
  from upsert_create_ignores_archive_recycle [OF i, of helpers0 1 "Some True" "Some True" emptyDb] e
  show ?thesis by simp
qed

subsection \<open>The steps of a call that returns\<close>

lemma set_nonNull: "set (nonNull xs) = {x. Some x \<in> set xs}"
  by (induction xs rule: nonNull.induct) auto

lemma find_Some_mem: "find P xs = Some x \<Longrightarrow> x \<in> set xs \<and> P x"
  by (induction xs) (auto split: if_splits)

lemma includeTag_Some: "includeTag d r = Some T \<Longrightarrow> T \<in> set (tag d) \<and> t_id T = tn_tagId r"
  by (auto simp: includeTag_def dest: find_Some_mem)

lemma includeTag_cong: "tag d' = tag d \<Longrightarrow> includeTag d' = includeTag d"
  by (auto simp: includeTag_def fun_eq_iff)

lemma noteTags_mem:
  "T \<in> set (noteTags d i) \<Longrightarrow>
   T \<in> set (tag d) \<and> (\<exists>r \<in> set (tagsToNote d). tn_noteId r = i \<and> tn_tagId r = t_id T)"
  by (auto simp: noteTags_def set_nonNull dest!: includeTag_Some [OF sym])

lemma upsert_update_Inr:
  assumes "upsert_update h a input (Some c) tree i d = (Inr r, d')"
  shows "\<exists>n newTags d2 d3.
    find (\<lambda>n. n_id n = i \<and> n_accountId n = a) (notes_table d) = Some n \<and>
    r = ReturnsNote (updateData input (Some c) n) \<and>
    handleAddTags a (Some i) tree None []
      (d\<lparr>notes_table := map (\<lambda>m. if n_id m = i \<and> n_accountId m = a
                                  then updateData input (Some c) m else m) (notes_table d)\<rparr>) =
      (Inr newTags, d2) \<and>
    deleteRelationTags h i (noteTags d i)
      (difference (map tagKey (noteTags d i)) (map tagKey newTags)) d2 = (Inr (), d3) \<and>
    d' = insertAttachments i (in_attachments input)
           (deleteUnusedTags a (noteTags d i)
              ((noteReference_createMany i
                  (difference (case in_references input of None \<Rightarrow> [] | Some rs \<Rightarrow> rs)
                     (referencesOf d2 i))
                  (addRelationTags h i newTags
                     (difference (map tagKey newTags) (map tagKey (noteTags d i))) d3))
               \<lparr>noteReference :=
                  filter (\<lambda>r. \<not> (nr_fromNoteId r = i \<and>
                        nr_toNoteId r \<in> set (difference (referencesOf d2 i)
                           (case in_references input of None \<Rightarrow> [] | Some rs \<Rightarrow> rs))))
                    (noteReference
                       (noteReference_createMany i
                          (difference (case in_references input of None \<Rightarrow> [] | Some rs \<Rightarrow> rs)
                             (referencesOf d2 i))
                          (addRelationTags h i newTags
                             (difference (map tagKey newTags) (map tagKey (noteTags d i))) d3)))\<rparr>))"
proof -
  obtain e1 d1 where u: "notes_update i a (updateData input (Some c)) d = (e1, d1)"
    by (cases "notes_update i a (updateData input (Some c)) d")
  with assms obtain nrow where e1: "e1 = Inr nrow"
    by (cases e1) (auto simp: upsert_update_def)
  from notes_update_Inr [OF u [unfolded e1]] obtain n where
    n: "find (\<lambda>n. n_id n = i \<and> n_accountId n = a) (notes_table d) = Some n"
    and nrow: "nrow = updateData input (Some c) n"
    and d1: "d1 = d\<lparr>notes_table := map (\<lambda>m. if n_id m = i \<and> n_accountId m = a
                                  then updateData input (Some c) m else m) (notes_table d)\<rparr>"
    by blast
  from n have ni: "n_id n = i" by (auto dest: find_Some_mem)
  then have nri: "n_id nrow = i" by (simp add: nrow)
  have old: "nonNull (map (includeTag d1) (filter (\<lambda>r. tn_noteId r = i) (tagsToNote d1))) = noteTags d i"
    by (simp add: noteTags_def d1 includeTag_def [abs_def])
  obtain e2 d2 where h2: "handleAddTags a (Some i) tree None [] d1 = (e2, d2)"
    by (cases "handleAddTags a (Some i) tree None [] d1")
  with assms u e1 nri obtain newTags where e2: "e2 = Inr newTags"
    by (cases e2) (auto simp: upsert_update_def Let_def)
  obtain e3 d3 where h3: "deleteRelationTags h i (noteTags d i)
      (difference (map tagKey (noteTags d i)) (map tagKey newTags)) d2 = (e3, d3)"
    by (cases "deleteRelationTags h i (noteTags d i)
      (difference (map tagKey (noteTags d i)) (map tagKey newTags)) d2")
  with assms u e1 nri h2 e2 old have e3: "e3 = Inr ()"
    by (cases e3) (auto simp: upsert_update_def Let_def)
  from assms u e1 nri h2 e2 old h3 e3
  have "d' = insertAttachments i (in_attachments input)
           (deleteUnusedTags a (noteTags d i)
              ((noteReference_createMany i
                  (difference (case in_references input of None \<Rightarrow> [] | Some rs \<Rightarrow> rs)
                     (referencesOf d2 i))
                  (addRelationTags h i newTags
                     (difference (map tagKey newTags) (map tagKey (noteTags d i))) d3))
               \<lparr>noteReference :=
                  filter (\<lambda>r. \<not> (nr_fromNoteId r = i \<and>
                        nr_toNoteId r \<in> set (difference (referencesOf d2 i)
                           (case in_references input of None \<Rightarrow> [] | Some rs \<Rightarrow> rs))))
                    (noteReference
                       (noteReference_createMany i
                          (difference (case in_references input of None \<Rightarrow> [] | Some rs \<Rightarrow> rs)
                             (referencesOf d2 i))
                          (addRelationTags h i newTags
                             (difference (map tagKey newTags) (map tagKey (noteTags d i))) d3)))\<rparr>))"
    and "r = ReturnsNote nrow"
    by (auto simp: upsert_update_def Let_def referencesOf_def)
  with n nrow h2 e2 h3 e3 d1 show ?thesis by blast
qed

subsection \<open>When upsert returns\<close>

lemma find_distinct_key:
  "distinct (map f xs) \<Longrightarrow> x \<in> set xs \<Longrightarrow> find (\<lambda>y. f y = f x) xs = Some x"
  by (induction xs) (auto simp: image_iff)

lemma includeTag_unique:
  "wfTagIds d \<Longrightarrow> T \<in> set (tag d) \<Longrightarrow> tn_tagId r = t_id T \<Longrightarrow> includeTag d r = Some T"
  by (simp add: wfTagIds_def includeTag_def find_distinct_key)

lemma tag_create_wf:
  "wfTagIds d \<Longrightarrow> tag_create nm parent a d = (t, d1) \<Longrightarrow> wfTagIds d1 \<and> t \<in> set (tag d1)"
  by (fastforce simp: tag_create_def wfTagIds_def Let_def list_all_iff)

lemma linkedTag_returns:
  assumes "wfTagIds d"
  shows "\<exists>hasTag d'. linkedTag a n nm p d = (Inr hasTag, d') \<and> wfTagIds d'"
proof -
  define parent where "parent = (case p of None \<Rightarrow> 0 | Some q \<Rightarrow> t_id q)"
  obtain hasTag d1 where fc: "(case find (\<lambda>t. t_name t = nm \<and> t_parent t = parent \<and> t_accountId t = a)
                    (tag d) of
               Some t \<Rightarrow> (t, d)
             | None \<Rightarrow> tag_create nm parent a d) = (hasTag, d1)"
    by (cases "case find (\<lambda>t. t_name t = nm \<and> t_parent t = parent \<and> t_accountId t = a)
                    (tag d) of
               Some t \<Rightarrow> (t, d)
             | None \<Rightarrow> tag_create nm parent a d")
  have wf1: "wfTagIds d1 \<and> hasTag \<in> set (tag d1)"
  proof (cases "find (\<lambda>t. t_name t = nm \<and> t_parent t = parent \<and> t_accountId t = a) (tag d)")
    case None
    with fc assms show ?thesis by (auto dest: tag_create_wf)
  next
    case (Some t)
    then have "t \<in> set (tag d)" by (auto simp: find_Some_iff)
    with Some fc assms show ?thesis by auto
  qed
  have tt: "tagsToNote d1 = tagsToNote d1" ..
  show ?thesis
  proof (cases "truthy n")
    case False
    with fc wf1 show ?thesis
      by (simp add: linkedTag_def parent_def [symmetric] Let_def)
  next
    case True
    then obtain noteId where n: "n = Some noteId" by (auto simp: truthy_def split: option.splits)
    show ?thesis
    proof (cases "find (\<lambda>r. includeTag d1 r = Some hasTag \<and> Some (tn_noteId r) = n) (tagsToNote d1)")
      case (Some r)
      with True fc wf1 show ?thesis
        by (simp add: linkedTag_def parent_def [symmetric] Let_def)
    next
      case None
      have "\<not> (\<exists>r \<in> set (tagsToNote d1). tn_tagId r = t_id hasTag \<and> tn_noteId r = noteId)"
      proof
        assume "\<exists>r \<in> set (tagsToNote d1). tn_tagId r = t_id hasTag \<and> tn_noteId r = noteId"
        then obtain r where r: "r \<in> set (tagsToNote d1)" "tn_tagId r = t_id hasTag" "tn_noteId r = noteId"
          by blast
        with wf1 have "includeTag d1 r = Some hasTag" by (auto intro: includeTag_unique)
        with r n None show False by (auto simp: find_None_iff)
      qed
      then have "tagsToNote_create (t_id hasTag) noteId d1 =
        (Inr (), d1\<lparr>tagsToNote := tagsToNote d1 @ [\<lparr>tn_tagId = t_id hasTag, tn_noteId = noteId\<rparr>]\<rparr>)"
        by (simp add: tagsToNote_create_def)
      moreover have "wfTagIds (d1\<lparr>tagsToNote := tagsToNote d1 @ [\<lparr>tn_tagId = t_id hasTag, tn_noteId = noteId\<rparr>]\<rparr>)"
        using wf1 by (simp add: wfTagIds_def)
      ultimately show ?thesis
        using True fc None n
        by (simp add: linkedTag_def parent_def [symmetric] Let_def)
    qed
  qed
qed

lemma handleAddTags_returns:
  "wfTagIds d \<Longrightarrow> \<exists>newTags' d'. handleAddTags a n tree p newTags d = (Inr newTags', d') \<and> wfTagIds d'"
proof (induction a n tree p newTags d rule: handleAddTags.induct)
  case (1 accountId noteId parentTag newTags d)
  then show ?case by simp
next
  case (2 accountId noteId nm ch rest parentTag newTags d)
  from linkedTag_returns [OF "2.prems"] obtain hasTag d2 where
    l: "linkedTag accountId noteId nm parentTag d = (Inr hasTag, d2)" and wf2: "wfTagIds d2"
    by blast
  have "\<exists>newTags3 d3. (case ch of None \<Rightarrow> (Inr newTags, d2)
        | Some cs \<Rightarrow> handleAddTags accountId noteId cs (Some hasTag) newTags d2) = (Inr newTags3, d3) \<and>
        wfTagIds d3"
  proof (cases ch)
    case None
    with wf2 show ?thesis by simp
  next
    case (Some cs)
    from "2.IH"(1) [OF l [symmetric] refl Some wf2] Some show ?thesis by simp
  qed
  then obtain newTags3 d3 where c: "(case ch of None \<Rightarrow> (Inr newTags, d2)
        | Some cs \<Rightarrow> handleAddTags accountId noteId cs (Some hasTag) newTags d2) = (Inr newTags3, d3)"
    and wf3: "wfTagIds d3" by blast
  from "2.IH"(2) [OF l [symmetric] refl c [symmetric] refl wf3] l c
  show ?case by simp
qed

lemma keySeparator_Cons: "keySeparator = lessThanSign # js ''key>''"
  by (simp add: keySeparator_def lessThanSign_def js_def)

lemma prefix_keySeparator: "prefix keySeparator (c # cs) \<Longrightarrow> c = lessThanSign"
  by (simp add: keySeparator_Cons)

lemma js_split_no_separator:
  "lessThanSign \<notin> set s \<Longrightarrow> js_split keySeparator cur s = [cur @ s]"
proof (induction s arbitrary: cur)
  case Nil
  show ?case by simp
next
  case (Cons c s)
  then have "\<not> prefix keySeparator (c # s)" by (auto dest: prefix_keySeparator)
  with Cons show ?case by simp
qed

lemma js_split_key:
  "lessThanSign \<notin> set nm \<Longrightarrow>
   js_split keySeparator cur (nm @ keySeparator @ rest) = (cur @ nm) # js_split keySeparator [] rest"
proof (induction nm arbitrary: cur)
  case Nil
  have "keySeparator \<noteq> []" by (simp add: keySeparator_Cons)
  moreover have "keySeparator @ rest = lessThanSign # (js ''key>'' @ rest)"
    by (simp add: keySeparator_Cons)
  moreover have "prefix keySeparator (keySeparator @ rest)" by simp
  ultimately have "js_split keySeparator cur (lessThanSign # (js ''key>'' @ rest)) =
    cur # js_split keySeparator [] (drop (length keySeparator) (keySeparator @ rest))"
    by (metis js_split.simps(2))
  then show ?case by (simp add: keySeparator_Cons)
next
  case (Cons c nm)
  then have "\<not> prefix keySeparator (c # nm @ keySeparator @ rest)"
    by (auto dest: prefix_keySeparator)
  with Cons show ?case by simp
qed

lemma digits_no_lessThan: "lessThanSign \<notin> set (digits n)"
proof (induction n rule: digits.induct)
  case (1 n)
  define dg :: "nat \<Rightarrow> code_unit" where "dg k = of_nat (48 + k)" for k
  have small: "dg k \<noteq> lessThanSign" if "k < 10" for k
  proof -
    from that have "k \<in> {0, 1, 2, 3, 4, 5, 6, 7, 8, 9}" by auto
    then show ?thesis by (auto simp: lessThanSign_def dg_def)
  qed
  have unfold: "digits n = (if n < 10 then [dg n] else digits (n div 10) @ [dg (n mod 10)])"
    unfolding dg_def by (rule digits.simps)
  show ?case
  proof (cases "n < 10")
    case True
    with small [OF True] show ?thesis unfolding unfold by simp
  next
    case False
    with "1.IH" have "lessThanSign \<notin> set (digits (n div 10))" by simp
    moreover have "dg (n mod 10) \<noteq> lessThanSign"
      by (rule small) simp
    ultimately show ?thesis using False unfolding unfold by simp
  qed
qed

lemma numberToString_no_lessThan: "lessThanSign \<notin> set (numberToString p)"
proof -
  have "lessThanSign \<notin> set (js ''-'')"
    by (simp add: js_def lessThanSign_def)
  then show ?thesis
    by (simp add: numberToString_def digits_no_lessThan)
qed

lemma findByKey_resolves:
  assumes "t \<in> set tags" and "lessThanSign \<notin> set (t_name t)"
    and "Number h (numberToString (t_parent t)) = Some (t_parent t)"
  shows "findByKey h tags (tagKey t) \<noteq> None"
proof -
  have "js_split (js ''<key>'') [] (tagKey t) = [t_name t, numberToString (t_parent t)]"
    using js_split_key [OF assms(2), of "[]" "numberToString (t_parent t)"]
      js_split_no_separator [OF numberToString_no_lessThan, of "[]" "t_parent t"]
    by (simp add: tagKey_def keySeparator_def)
  then have "findByKey h tags (tagKey t) =
    find (\<lambda>u. t_name u = t_name t \<and> Some (t_parent u) = Some (t_parent t)) tags"
    by (simp add: findByKey_def assms(3))
  with assms(1) show ?thesis by (auto simp: find_None_iff)
qed

lemma deletedRelationIds_returns:
  "\<forall>key \<in> set keys. findByKey h oldTags key \<noteq> None \<Longrightarrow> \<exists>ids. deletedRelationIds h oldTags keys = Inr ids"
  by (induction keys) auto

lemma deleteRelationTags_returns:
  assumes "\<forall>t \<in> set oldTags. lessThanSign \<notin> set (t_name t)"
    and "\<forall>t \<in> set oldTags. Number h (numberToString (t_parent t)) = Some (t_parent t)"
  shows "\<exists>d'. deleteRelationTags h i oldTags (difference (map tagKey oldTags) new) d = (Inr (), d')"
proof -
  have "\<forall>key \<in> set (difference (map tagKey oldTags) new). findByKey h oldTags key \<noteq> None"
  proof
    fix key
    assume "key \<in> set (difference (map tagKey oldTags) new)"
    then obtain t where "t \<in> set oldTags" "key = tagKey t"
      by (auto simp: difference_def)
    with assms show "findByKey h oldTags key \<noteq> None"
      using findByKey_resolves by blast
  qed
  from deletedRelationIds_returns [OF this] obtain ids where
    "deletedRelationIds h oldTags (difference (map tagKey oldTags) new) = Inr ids" by blast
  then show ?thesis by (simp add: deleteRelationTags_def)
qed

text \<open>
  When upsert returns. A call with the id of a note of the caller and a content that is
  not null returns the updated note when the identifiers of the tag table are unique,
  no tag of the note has the character \<^verbatim>\<open><\<close> in its name, and \<open>Number\<close> reads
  the numerals of their parents back. (Claim C4 shows a call that throws where a name
  holds the separator of the keys.)
\<close>

theorem upsert_returns:
  assumes "in_id input = Some i" and "i \<noteq> 0" and "in_content input = Some c"
    and "find (\<lambda>n. n_id n = i \<and> n_accountId n = accountId) (notes_table d) = Some n"
    and "wfTagIds d"
    and "\<forall>t \<in> set (noteTags d i). lessThanSign \<notin> set (t_name t)"
    and "\<forall>t \<in> set (noteTags d i). Number h (numberToString (t_parent t)) = Some (t_parent t)"
  shows "\<exists>d'. upsert h accountId input d = (Inr (ReturnsNote (updateData input (Some (sanitize c)) n)), d')"
proof -
  define content where "content = Some (sanitize c)"
  define tagTree where "tagTree = buildHashTagTreeFromHashString h (extractHashtags (hashtagSource content))"
  define d1 where "d1 = d\<lparr>notes_table := map (\<lambda>m. if n_id m = i \<and> n_accountId m = accountId
      then updateData input content m else m) (notes_table d)\<rparr>"
  have u: "notes_update i accountId (updateData input content) d = (Inr (updateData input content n), d1)"
    using assms(4) by (simp add: notes_update_def d1_def)
  from assms(4) have ni: "n_id n = i" by (auto simp: find_Some_iff)
  have nu: "n_id (updateData input content n) = i" by (simp add: updateData_def ni)
  have wf1: "wfTagIds d1" using assms(5) by (simp add: wfTagIds_def d1_def)
  from handleAddTags_returns [OF wf1] obtain newTags d2 where
    h2: "handleAddTags accountId (Some i) tagTree None [] d1 = (Inr newTags, d2)" by blast
  have old: "nonNull (map (includeTag d1) (filter (\<lambda>r. tn_noteId r = i) (tagsToNote d1))) = noteTags d i"
    by (simp add: noteTags_def d1_def includeTag_def [abs_def])
  from deleteRelationTags_returns [OF assms(6,7)] obtain d3 where
    h3: "deleteRelationTags h i (noteTags d i)
      (difference (map tagKey (noteTags d i)) (map tagKey newTags)) d2 = (Inr (), d3)" by blast
  have "\<exists>d'. upsert_update h accountId input content tagTree i d =
    (Inr (ReturnsNote (updateData input content n)), d')"
    by (simp add: upsert_update_def u ni nu h2 old h3 Let_def) (simp add: content_def)
  with assms(1-3) show ?thesis
    by (simp add: upsert_def truthy_def Let_def content_def tagTree_def)
qed

theorem upsert_returns_witness:
  "\<exists>d'. upsert helpers0 1 dropOwn dbTags = (Inr (ReturnsNote (plainNote 1 1 (js ''#shared''))), d')"
proof -
  have i: "in_id dropOwn = Some 1" "in_content dropOwn = Some (js ''#shared'')"
    by (simp_all add: dropOwn_def newNote_def)
  have f: "find (\<lambda>n. n_id n = 1 \<and> n_accountId n = 1) (notes_table dbTags) =
    Some (plainNote 1 1 (js ''#shared #own''))"
    by (simp add: dbTags_def plainNote_def)
  have wf: "wfTagIds dbTags"
    by (simp add: wfTagIds_def dbTags_def tagShared_def tagOwn_def emptyDb_def)
  have nt: "noteTags dbTags 1 = [tagShared, tagOwn]"
    by code_simp
  have nm: "\<forall>t \<in> set (noteTags dbTags 1). lessThanSign \<notin> set (t_name t)"
    unfolding nt by (simp add: tagShared_def tagOwn_def js_def lessThanSign_def)
  have z: "stringToNumber (numberToString 0) = Some 0"
    by code_simp
  have nb: "\<forall>t \<in> set (noteTags dbTags 1). Number helpers0 (numberToString (t_parent t)) = Some (t_parent t)"
    unfolding nt using z by (simp add: tagShared_def tagOwn_def helpers0_def)
  have s: "sanitize (js ''#shared'') = js ''#shared''"
    by code_simp
  have u: "updateData dropOwn (Some (js ''#shared'')) (plainNote 1 1 (js ''#shared #own'')) =
    plainNote 1 1 (js ''#shared'')"
    by (simp add: updateData_def dropOwn_def newNote_def plainNote_def)
  from upsert_returns [OF i(1) _ i(2) f wf nm nb]
  show ?thesis by (simp add: s u)
qed

subsection \<open>References and orphan tags\<close>

lemma noteReference_createMany_rows:
  "\<exists>rows. noteReference (noteReference_createMany f ts d) = noteReference d @ rows \<and>
          map nr_toNoteId rows = ts \<and> (\<forall>e \<in> set rows. nr_fromNoteId e = f)"
proof (induction ts arbitrary: d)
  case Nil
  show ?case by simp
next
  case (Cons t ts)
  define d1 where "d1 = snd (noteReference_create f t d)"
  have 1: "noteReference d1 = noteReference d @
      [\<lparr>nr_id = seq_noteReference d, nr_fromNoteId = f, nr_toNoteId = t\<rparr>]"
    by (simp add: d1_def noteReference_create_def Let_def)
  from Cons [of d1] obtain rows where
    "noteReference (noteReference_createMany f ts d1) = noteReference d1 @ rows"
    "map nr_toNoteId rows = ts" "\<forall>e \<in> set rows. nr_fromNoteId e = f"
    by blast
  with 1 show ?case
    by (intro exI [of _ "\<lparr>nr_id = seq_noteReference d, nr_fromNoteId = f, nr_toNoteId = t\<rparr> # rows"])
      (simp add: d1_def)
qed

lemma reference_diff_sets:
  assumes "map nr_toNoteId rows = difference refs (map nr_toNoteId (filter (\<lambda>r. nr_fromNoteId r = i) old))"
    and "\<forall>e \<in> set rows. nr_fromNoteId e = i"
  defines "new \<equiv> filter (\<lambda>r. \<not> (nr_fromNoteId r = i \<and>
      nr_toNoteId r \<in> set (difference (map nr_toNoteId (filter (\<lambda>r. nr_fromNoteId r = i) old)) refs)))
      (old @ rows)"
  shows "set (map nr_toNoteId (filter (\<lambda>r. nr_fromNoteId r = i) new)) = set refs"
    and "filter (\<lambda>r. nr_fromNoteId r \<noteq> i) new = filter (\<lambda>r. nr_fromNoteId r \<noteq> i) old"
proof -
  have rows: "nr_toNoteId ` set rows = set refs - nr_toNoteId ` {r \<in> set old. nr_fromNoteId r = i}"
    using assms(1) by (metis (no_types, lifting) difference_def image_set set_filter set_diff_eq
        Collect_cong)
  show "set (map nr_toNoteId (filter (\<lambda>r. nr_fromNoteId r = i) new)) = set refs"
  proof (intro set_eqI iffI)
    fix x
    assume "x \<in> set (map nr_toNoteId (filter (\<lambda>r. nr_fromNoteId r = i) new))"
    then obtain e where e: "e \<in> set old \<or> e \<in> set rows" "nr_fromNoteId e = i" "nr_toNoteId e = x"
      "x \<notin> set (difference (map nr_toNoteId (filter (\<lambda>r. nr_fromNoteId r = i) old)) refs)"
      by (auto simp: new_def)
    show "x \<in> set refs"
    proof (cases "e \<in> set old")
      case True
      with e show ?thesis by (auto simp: difference_def)
    next
      case False
      with e have "x \<in> nr_toNoteId ` set rows" by auto
      with rows show ?thesis by auto
    qed
  next
    fix x
    assume x: "x \<in> set refs"
    show "x \<in> set (map nr_toNoteId (filter (\<lambda>r. nr_fromNoteId r = i) new))"
    proof (cases "x \<in> nr_toNoteId ` {r \<in> set old. nr_fromNoteId r = i}")
      case True
      then obtain e where "e \<in> set old" "nr_fromNoteId e = i" "nr_toNoteId e = x" by auto
      with x show ?thesis by (force simp: new_def difference_def)
    next
      case False
      with x rows have "x \<in> nr_toNoteId ` set rows" by auto
      then obtain e where "e \<in> set rows" "nr_toNoteId e = x" by auto
      with x assms(2) show ?thesis by (force simp: new_def difference_def)
    qed
  qed
  show "filter (\<lambda>r. nr_fromNoteId r \<noteq> i) new = filter (\<lambda>r. nr_fromNoteId r \<noteq> i) old"
    using assms(2) by (auto simp: new_def intro!: filter_cong filter_False)
qed

text \<open>
  What holds of the references when upsert returns the note: afterwards the note
  references exactly the notes of the input (none when the input gives no list), and
  the references of every other note are the rows they were.
\<close>

lemma upsert_references_after:
  assumes "in_id input = Some i" and "i \<noteq> 0" and "in_content input = Some c"
    and "upsert h accountId input d = (Inr r, d')"
  shows "set (referencesOf d' i) = set (case in_references input of None \<Rightarrow> [] | Some rs \<Rightarrow> rs) \<and>
     filter (\<lambda>e. nr_fromNoteId e \<noteq> i) (noteReference d') =
       filter (\<lambda>e. nr_fromNoteId e \<noteq> i) (noteReference d)"
proof -
  let ?refs = "case in_references input of None \<Rightarrow> [] | Some rs \<Rightarrow> rs"
  from assms have "upsert_update h accountId input (Some (sanitize c))
      (buildHashTagTreeFromHashString h (extractHashtags (hashtagSource (Some (sanitize c))))) i d =
      (Inr r, d')"
    by (simp add: upsert_def truthy_def Let_def)
  from upsert_update_Inr [OF this] obtain n newTags d2 d3 where
    h2: "handleAddTags accountId (Some i)
      (buildHashTagTreeFromHashString h (extractHashtags (hashtagSource (Some (sanitize c))))) None []
      (d\<lparr>notes_table := map (\<lambda>m. if n_id m = i \<and> n_accountId m = accountId
                                  then updateData input (Some (sanitize c)) m else m) (notes_table d)\<rparr>) =
      (Inr newTags, d2)"
    and h3: "deleteRelationTags h i (noteTags d i)
      (difference (map tagKey (noteTags d i)) (map tagKey newTags)) d2 = (Inr (), d3)"
    and d': "d' = insertAttachments i (in_attachments input)
           (deleteUnusedTags accountId (noteTags d i)
              ((noteReference_createMany i (difference ?refs (referencesOf d2 i))
                  (addRelationTags h i newTags
                     (difference (map tagKey newTags) (map tagKey (noteTags d i))) d3))
               \<lparr>noteReference :=
                  filter (\<lambda>r. \<not> (nr_fromNoteId r = i \<and>
                        nr_toNoteId r \<in> set (difference (referencesOf d2 i) ?refs)))
                    (noteReference
                       (noteReference_createMany i (difference ?refs (referencesOf d2 i))
                          (addRelationTags h i newTags
                             (difference (map tagKey newTags) (map tagKey (noteTags d i))) d3)))\<rparr>))"
    by blast
  from handleAddTags_same [OF h2] have r2: "noteReference d2 = noteReference d"
    by (simp add: sameButTags_def)
  from deleteRelationTags_frame [OF h3] have r3: "noteReference d3 = noteReference d2" by simp
  define d4 where "d4 = addRelationTags h i newTags
      (difference (map tagKey newTags) (map tagKey (noteTags d i))) d3"
  have r4: "noteReference d4 = noteReference d" by (simp add: d4_def r3 r2)
  have old: "referencesOf d2 i = map nr_toNoteId (filter (\<lambda>r. nr_fromNoteId r = i) (noteReference d))"
    by (simp add: referencesOf_def r2)
  from noteReference_createMany_rows [of i "difference ?refs (referencesOf d2 i)" d4]
  obtain rows where rows: "noteReference (noteReference_createMany i (difference ?refs (referencesOf d2 i)) d4) =
      noteReference d @ rows"
    "map nr_toNoteId rows = difference ?refs (referencesOf d2 i)"
    "\<forall>e \<in> set rows. nr_fromNoteId e = i"
    by (auto simp: r4)
  have "d' = insertAttachments i (in_attachments input)
           (deleteUnusedTags accountId (noteTags d i)
              ((noteReference_createMany i (difference ?refs (referencesOf d2 i)) d4)
               \<lparr>noteReference :=
                  filter (\<lambda>r. \<not> (nr_fromNoteId r = i \<and>
                        nr_toNoteId r \<in> set (difference (referencesOf d2 i) ?refs)))
                    (noteReference
                       (noteReference_createMany i (difference ?refs (referencesOf d2 i)) d4))\<rparr>))"
    unfolding d4_def by (rule d')
  then have "noteReference d' = filter (\<lambda>r. \<not> (nr_fromNoteId r = i \<and>
        nr_toNoteId r \<in> set (difference (referencesOf d2 i) ?refs)))
        (noteReference (noteReference_createMany i (difference ?refs (referencesOf d2 i)) d4))"
    by simp
  then have nd': "noteReference d' = filter (\<lambda>r. \<not> (nr_fromNoteId r = i \<and>
        nr_toNoteId r \<in> set (difference (referencesOf d2 i) ?refs))) (noteReference d @ rows)"
    unfolding rows(1) .
  from reference_diff_sets [OF rows(2) [unfolded old] rows(3)]
  show ?thesis
    unfolding referencesOf_def [of d'] nd' old by simp
qed

text \<open>
  On the store of five notes, with the references 1, 2, 3 before and 2, 3, 4 in the
  input, the row to 1 is gone and a row to 4 is there.
\<close>

lemma upsert_references_after_run:
  "referencesOf dbRefs 5 = [1, 2, 3] \<and>
   set (referencesOf (snd (upsert helpers0 1 updateRefs dbRefs)) 5) = {2, 3, 4} \<and>
   noteReference (snd (upsert helpers0 1 updateRefs dbRefs)) =
     [\<lparr>nr_id = 2, nr_fromNoteId = 5, nr_toNoteId = 2\<rparr>,
      \<lparr>nr_id = 3, nr_fromNoteId = 5, nr_toNoteId = 3\<rparr>,
      \<lparr>nr_id = 4, nr_fromNoteId = 5, nr_toNoteId = 4\<rparr>]"
proof -
  have e: "upsert helpers0 1 updateRefs dbRefs =
    (Inr (ReturnsNote (plainNote 5 1 (js ''five''))),
     dbRefs\<lparr>noteReference := [\<lparr>nr_id = 2, nr_fromNoteId = 5, nr_toNoteId = 2\<rparr>,
                        \<lparr>nr_id = 3, nr_fromNoteId = 5, nr_toNoteId = 3\<rparr>,
                        \<lparr>nr_id = 4, nr_fromNoteId = 5, nr_toNoteId = 4\<rparr>],
        seq_noteReference := 5\<rparr>)"
    by code_simp
  have i: "in_id updateRefs = Some 5" and c: "in_content updateRefs = Some (js ''five'')"
    and r: "in_references updateRefs = Some [2, 3, 4]"
    by (simp_all add: updateRefs_def newNote_def)
  have old: "referencesOf dbRefs 5 = [1, 2, 3]"
    by (simp add: referencesOf_def dbRefs_def)
  from upsert_references_after [OF i _ c e]
  have "set (referencesOf (snd (upsert helpers0 1 updateRefs dbRefs)) 5) = {2, 3, 4}"
    by (simp add: e r)
  with old show ?thesis by (simp add: e)
qed

text \<open>
  Claim C2 fails on the code. Account 1 makes five notes by calls without an id; the
  fifth has the content \<^verbatim>\<open>#a<key>0\<close> and the references 1, 2 and 3. It then updates the
  fifth note with a content without a tag and the references 2, 3 and 4. The key of the
  old tag, \<^verbatim>\<open>a<key>0<key>0\<close>, is cut into the name \<^verbatim>\<open>a\<close> and the parent 0, no tag of
  the note has that name, and reading the \<^verbatim>\<open>id\<close> of what \<^verbatim>\<open>find\<close> gives throws a
  TypeError. This happens before the references are written: the call fails, the row to
  note 1 is still there and no row to note 4 is made.
\<close>

theorem upsert_throws_before_references:
  "map n_id (notes_table dbKeyRefs) = [1, 2, 3, 4, 5] \<and>
   map n_accountId (notes_table dbKeyRefs) = [1, 1, 1, 1, 1] \<and>
   map t_name (noteTags dbKeyRefs 5) = [js ''a<key>0''] \<and>
   referencesOf dbKeyRefs 5 = [1, 2, 3] \<and>
   in_references updateKeyRefs = Some [2, 3, 4] \<and>
   fst (upsert helpers0 1 updateKeyRefs dbKeyRefs) = Inl TypeError \<and>
   referencesOf (snd (upsert helpers0 1 updateKeyRefs dbKeyRefs)) 5 = [1, 2, 3]"
proof -
  have c: "dbKeyRefs =
    emptyDb\<lparr>notes_table := [plainNote 1 1 (js ''one''), plainNote 2 1 (js ''two''),
                     plainNote 3 1 (js ''three''), plainNote 4 1 (js ''four''),
                     plainNote 5 1 (js ''#a<key>0'')],
       tag := [\<lparr>t_id = 1, t_name = js ''a<key>0'', t_parent = 0, t_accountId = 1\<rparr>],
       tagsToNote := [\<lparr>tn_tagId = 1, tn_noteId = 5\<rparr>],
       noteReference := [\<lparr>nr_id = 1, nr_fromNoteId = 5, nr_toNoteId = 1\<rparr>,
                         \<lparr>nr_id = 2, nr_fromNoteId = 5, nr_toNoteId = 2\<rparr>,
                         \<lparr>nr_id = 3, nr_fromNoteId = 5, nr_toNoteId = 3\<rparr>],
       seq_notes := 6, seq_tag := 2, seq_noteReference := 4\<rparr>"
    by code_simp
  have u: "upsert helpers0 1 updateKeyRefs
     (emptyDb\<lparr>notes_table := [plainNote 1 1 (js ''one''), plainNote 2 1 (js ''two''),
                     plainNote 3 1 (js ''three''), plainNote 4 1 (js ''four''),
                     plainNote 5 1 (js ''#a<key>0'')],
       tag := [\<lparr>t_id = 1, t_name = js ''a<key>0'', t_parent = 0, t_accountId = 1\<rparr>],
       tagsToNote := [\<lparr>tn_tagId = 1, tn_noteId = 5\<rparr>],
       noteReference := [\<lparr>nr_id = 1, nr_fromNoteId = 5, nr_toNoteId = 1\<rparr>,
                         \<lparr>nr_id = 2, nr_fromNoteId = 5, nr_toNoteId = 2\<rparr>,
                         \<lparr>nr_id = 3, nr_fromNoteId = 5, nr_toNoteId = 3\<rparr>],
       seq_notes := 6, seq_tag := 2, seq_noteReference := 4\<rparr>) =
    (Inl TypeError,
     emptyDb\<lparr>notes_table := [plainNote 1 1 (js ''one''), plainNote 2 1 (js ''two''),
                     plainNote 3 1 (js ''three''), plainNote 4 1 (js ''four''),
                     plainNote 5 1 (js ''five'')],
       tag := [\<lparr>t_id = 1, t_name = js ''a<key>0'', t_parent = 0, t_accountId = 1\<rparr>],
       tagsToNote := [\<lparr>tn_tagId = 1, tn_noteId = 5\<rparr>],
       noteReference := [\<lparr>nr_id = 1, nr_fromNoteId = 5, nr_toNoteId = 1\<rparr>,
                         \<lparr>nr_id = 2, nr_fromNoteId = 5, nr_toNoteId = 2\<rparr>,
                         \<lparr>nr_id = 3, nr_fromNoteId = 5, nr_toNoteId = 3\<rparr>],
       seq_notes := 6, seq_tag := 2, seq_noteReference := 4\<rparr>)"
    by code_simp
  have r: "in_references updateKeyRefs = Some [2, 3, 4]"
    by (simp add: updateKeyRefs_def)
  show ?thesis
    unfolding c u snd_conv fst_conv
    by (simp add: r noteTags_def includeTag_def referencesOf_def plainNote_def)
qed

theorem upsert_throws_before_references_witness:
  "1 \<in> set (referencesOf (snd (upsert helpers0 1 updateKeyRefs dbKeyRefs)) 5) \<and>
   4 \<notin> set (referencesOf (snd (upsert helpers0 1 updateKeyRefs dbKeyRefs)) 5)"
  using upsert_throws_before_references by simp

text \<open>
  What holds of the tags. Let \<open>T\<close> be a tag of the caller's account that a note was
  linked to. After upsert returned that note, and after deleteMany deleted it (then no
  link of the note is left), \<open>T\<close> is in the tag table exactly when some link of the
  store still points to it. (Identifiers of the store are not 0.)
\<close>

lemma deleteUnusedTags_iff:
  assumes "T \<in> set oldTags" and "T \<in> set (tag d)" and "t_accountId T = a" and "t_id T \<noteq> 0"
  shows "(T \<in> set (tag (deleteUnusedTags a oldTags d))) = (\<exists>r \<in> set (tagsToNote d). tn_tagId r = t_id T)"
proof -
  have "(t_id T \<in> tn_tagId ` {x \<in> set (tagsToNote d). tn_tagId x \<in> t_id ` set oldTags}) =
    (\<exists>r \<in> set (tagsToNote d). tn_tagId r = t_id T)"
    using assms(1) by force
  with assms show ?thesis
    by (simp add: deleteUnusedTags_def Let_def difference_def)
qed

lemma upsert_orphan_tags:
  assumes "in_id input = Some i" and "i \<noteq> 0" and "in_content input = Some c"
    and "upsert h accountId input d = (Inr r, d')"
    and "T \<in> set (noteTags d i)" and "t_accountId T = accountId" and "t_id T \<noteq> 0"
  shows "(T \<in> set (tag d')) = (\<exists>r \<in> set (tagsToNote d'). tn_tagId r = t_id T)"
proof -
  let ?refs = "case in_references input of None \<Rightarrow> [] | Some rs \<Rightarrow> rs"
  from assms have "upsert_update h accountId input (Some (sanitize c))
      (buildHashTagTreeFromHashString h (extractHashtags (hashtagSource (Some (sanitize c))))) i d =
      (Inr r, d')"
    by (simp add: upsert_def truthy_def Let_def)
  from upsert_update_Inr [OF this] obtain n newTags d2 d3 where
    h2: "handleAddTags accountId (Some i)
      (buildHashTagTreeFromHashString h (extractHashtags (hashtagSource (Some (sanitize c))))) None []
      (d\<lparr>notes_table := map (\<lambda>m. if n_id m = i \<and> n_accountId m = accountId
                                  then updateData input (Some (sanitize c)) m else m) (notes_table d)\<rparr>) =
      (Inr newTags, d2)"
    and h3: "deleteRelationTags h i (noteTags d i)
      (difference (map tagKey (noteTags d i)) (map tagKey newTags)) d2 = (Inr (), d3)"
    and d': "d' = insertAttachments i (in_attachments input)
           (deleteUnusedTags accountId (noteTags d i)
              ((noteReference_createMany i (difference ?refs (referencesOf d2 i))
                  (addRelationTags h i newTags
                     (difference (map tagKey newTags) (map tagKey (noteTags d i))) d3))
               \<lparr>noteReference :=
                  filter (\<lambda>r. \<not> (nr_fromNoteId r = i \<and>
                        nr_toNoteId r \<in> set (difference (referencesOf d2 i) ?refs)))
                    (noteReference
                       (noteReference_createMany i (difference ?refs (referencesOf d2 i))
                          (addRelationTags h i newTags
                             (difference (map tagKey newTags) (map tagKey (noteTags d i))) d3)))\<rparr>))"
    by blast
  define d6 where "d6 = (noteReference_createMany i (difference ?refs (referencesOf d2 i))
                  (addRelationTags h i newTags
                     (difference (map tagKey newTags) (map tagKey (noteTags d i))) d3))
               \<lparr>noteReference :=
                  filter (\<lambda>r. \<not> (nr_fromNoteId r = i \<and>
                        nr_toNoteId r \<in> set (difference (referencesOf d2 i) ?refs)))
                    (noteReference
                       (noteReference_createMany i (difference ?refs (referencesOf d2 i))
                          (addRelationTags h i newTags
                             (difference (map tagKey newTags) (map tagKey (noteTags d i))) d3)))\<rparr>"
  from handleAddTags_same [OF h2] have "set (tag d) \<subseteq> set (tag d2)"
    by (simp add: sameButTags_def)
  moreover from deleteRelationTags_frame [OF h3] have "tag d3 = tag d2" by simp
  ultimately have "set (tag d) \<subseteq> set (tag d6)" by (simp add: d6_def)
  moreover from assms(5) have "T \<in> set (tag d)" by (auto dest: noteTags_mem)
  ultimately have "T \<in> set (tag d6)" by blast
  from deleteUnusedTags_iff [OF assms(5) this assms(6) assms(7)]
  have "(T \<in> set (tag (deleteUnusedTags accountId (noteTags d i) d6))) =
    (\<exists>r \<in> set (tagsToNote d6). tn_tagId r = t_id T)" .
  moreover have "d' = insertAttachments i (in_attachments input)
      (deleteUnusedTags accountId (noteTags d i) d6)"
    unfolding d6_def by (rule d')
  ultimately show ?thesis by simp
qed

lemma find_None_iff2: "(find P xs = None) = (\<forall>x \<in> set xs. \<not> P x)"
  by (induction xs) auto

lemma deleteRelation_tagsToNote:
  "tagsToNote (deleteRelation a s d) = filter (\<lambda>r. tn_noteId r \<noteq> nw_id s) (tagsToNote d)"
  by (simp add: deleteRelation_def Let_def)

lemma deleteRelation_tag_subset: "set (tag (deleteRelation a s d)) \<subseteq> set (tag d)"
  by (auto simp: deleteRelation_def Let_def)

lemma deleteRelation_tag_iff:
  assumes "T \<in> set (tag d)" and "t_accountId T = a" and "t_id T \<noteq> 0"
  shows "(T \<in> set (tag (deleteRelation a s d))) =
     (t_id T \<notin> snapshotTagIds s \<or>
      (\<exists>r \<in> set (tagsToNote d). tn_noteId r \<noteq> nw_id s \<and> tn_tagId r = t_id T))"
proof -
  define rows where "rows = filter (\<lambda>r. tn_noteId r \<noteq> nw_id s) (tagsToNote d)"
  define allTagsIds where "allTagsIds = map t_id (nonNull (nw_tags s))"
  define d2 where "d2 = d\<lparr>tagsToNote := rows,
      noteReference := filter (\<lambda>r. \<not> (nr_fromNoteId r = nw_id s \<or> nr_toNoteId r = nw_id s))
                      (noteReference d)\<rparr>"
  define usingTags where "usingTags = filter (\<lambda>i. i \<noteq> 0)
      (nonNull (map (\<lambda>r. map_option t_id (includeTag d2 r))
         (filter (\<lambda>r. tn_tagId r \<in> set allTagsIds) rows)))"
  have inc: "includeTag d2 = includeTag d"
    by (rule includeTag_cong) (simp add: d2_def)
  have tagd: "tag (deleteRelation a s d) =
    filter (\<lambda>t. \<not> (t_id t \<in> set (difference allTagsIds usingTags) \<and> t_accountId t = a)) (tag d)"
    by (simp add: deleteRelation_def Let_def rows_def allTagsIds_def usingTags_def d2_def
        includeTag_def [abs_def])
  have found: "includeTag d r \<noteq> None" if "tn_tagId r = t_id T" for r
    using assms(1) that by (auto simp: includeTag_def find_None_iff2)
  have using_iff: "(t_id T \<in> set usingTags) =
    (t_id T \<in> set allTagsIds \<and> (\<exists>r \<in> set rows. tn_tagId r = t_id T))"
  proof
    assume "t_id T \<in> set usingTags"
    then obtain r where r0: "r \<in> set rows" "tn_tagId r \<in> set allTagsIds"
      "Some (t_id T) = map_option t_id (includeTag d2 r)"
      by (auto simp: usingTags_def set_nonNull)
    from r0(3) have "map_option t_id (includeTag d r) = Some (t_id T)"
      unfolding inc by (rule sym)
    note r = r0(1,2) this
    then obtain X where "includeTag d r = Some X" "t_id X = t_id T" by auto
    then have "tn_tagId r = t_id T" by (auto dest: includeTag_Some)
    with r show "t_id T \<in> set allTagsIds \<and> (\<exists>r \<in> set rows. tn_tagId r = t_id T)" by auto
  next
    assume a: "t_id T \<in> set allTagsIds \<and> (\<exists>r \<in> set rows. tn_tagId r = t_id T)"
    then obtain r where r: "r \<in> set rows" "tn_tagId r = t_id T" by blast
    with found obtain X where X: "includeTag d r = Some X" by blast
    then have "t_id X = t_id T" using r by (auto dest: includeTag_Some)
    with X have "map_option t_id (includeTag d r) = Some (t_id T)" by simp
    then have "Some (t_id T) \<in> set (map (\<lambda>r. map_option t_id (includeTag d2 r))
         (filter (\<lambda>r. tn_tagId r \<in> set allTagsIds) rows))"
      using r a by (force simp: inc)
    with assms(3) show "t_id T \<in> set usingTags"
      by (simp add: usingTags_def set_nonNull)
  qed
  have "(T \<in> set (tag (deleteRelation a s d))) = (t_id T \<notin> set (difference allTagsIds usingTags))"
    using assms by (simp add: tagd)
  also have "\<dots> = (t_id T \<notin> set allTagsIds \<or> t_id T \<in> set usingTags)"
    by (auto simp: difference_def)
  also have "\<dots> = (t_id T \<notin> snapshotTagIds s \<or>
      (\<exists>r \<in> set (tagsToNote d). tn_noteId r \<noteq> nw_id s \<and> tn_tagId r = t_id T))"
    unfolding using_iff by (auto simp: allTagsIds_def snapshotTagIds_def rows_def)
  finally show ?thesis .
qed

lemma handleDeleteRelation_tagsToNote:
  "tagsToNote (handleDeleteRelation a snaps d) =
     filter (\<lambda>r. tn_noteId r \<notin> nw_id ` set snaps) (tagsToNote d)"
proof (induction snaps arbitrary: d)
  case Nil
  show ?case by simp
next
  case (Cons s snaps)
  show ?case
    by (simp add: Cons deleteRelation_tagsToNote conj_commute)
qed

lemma handleDeleteRelation_tag_subset: "set (tag (handleDeleteRelation a snaps d)) \<subseteq> set (tag d)"
proof (induction snaps arbitrary: d)
  case Nil
  show ?case by simp
next
  case (Cons s snaps)
  from Cons [of "deleteRelation a s d"] deleteRelation_tag_subset [of a s d]
  show ?case by auto
qed

lemma handleDeleteRelation_orphans:
  assumes "T \<in> set (tag d)" and "t_accountId T = a" and "t_id T \<noteq> 0"
    and "\<forall>r \<in> set (tagsToNote d). tn_tagId r = t_id T \<longrightarrow>
           (\<forall>s \<in> set snaps. tn_noteId r = nw_id s \<longrightarrow> t_id T \<in> snapshotTagIds s)"
    and "(\<exists>s \<in> set snaps. t_id T \<in> snapshotTagIds s) \<or>
         (\<exists>r \<in> set (tagsToNote d). tn_tagId r = t_id T)"
  shows "(T \<in> set (tag (handleDeleteRelation a snaps d))) =
     (\<exists>r \<in> set (tagsToNote (handleDeleteRelation a snaps d)). tn_tagId r = t_id T)"
  using assms
proof (induction snaps arbitrary: d)
  case Nil
  then show ?case by simp
next
  case (Cons s snaps)
  define d1 where "d1 = deleteRelation a s d"
  have rows1: "tagsToNote d1 = filter (\<lambda>r. tn_noteId r \<noteq> nw_id s) (tagsToNote d)"
    by (simp add: d1_def deleteRelation_tagsToNote)
  have cover1: "\<forall>r \<in> set (tagsToNote d1). tn_tagId r = t_id T \<longrightarrow>
           (\<forall>s \<in> set snaps. tn_noteId r = nw_id s \<longrightarrow> t_id T \<in> snapshotTagIds s)"
    using Cons.prems(4) by (auto simp: rows1)
  have iff1: "(T \<in> set (tag d1)) =
     (t_id T \<notin> snapshotTagIds s \<or>
      (\<exists>r \<in> set (tagsToNote d). tn_noteId r \<noteq> nw_id s \<and> tn_tagId r = t_id T))"
    unfolding d1_def using Cons.prems(1-3) by (rule deleteRelation_tag_iff)
  have step: "handleDeleteRelation a (s # snaps) d = handleDeleteRelation a snaps d1"
    by (simp add: d1_def)
  show ?case
  proof (cases "\<exists>r \<in> set (tagsToNote d1). tn_tagId r = t_id T")
    case True
    then have "T \<in> set (tag d1)" using iff1 by (auto simp: rows1)
    from Cons.IH [OF this Cons.prems(2,3) cover1] True
    show ?thesis unfolding step by blast
  next
    case False
    show ?thesis
    proof (cases "t_id T \<in> snapshotTagIds s")
      case True
      with False iff1 have "T \<notin> set (tag d1)" by (auto simp: rows1)
      with handleDeleteRelation_tag_subset [of a snaps d1]
      have "T \<notin> set (tag (handleDeleteRelation a snaps d1))" by blast
      moreover from False have "\<not> (\<exists>r \<in> set (tagsToNote (handleDeleteRelation a snaps d1)). tn_tagId r = t_id T)"
        by (auto simp: handleDeleteRelation_tagsToNote)
      ultimately show ?thesis unfolding step by blast
    next
      case nsnap: False
      with iff1 have T1: "T \<in> set (tag d1)" by blast
      have same: "\<forall>r \<in> set (tagsToNote d). tn_tagId r = t_id T \<longrightarrow> tn_noteId r \<noteq> nw_id s"
        using Cons.prems(4) nsnap by auto
      with False have norow: "\<not> (\<exists>r \<in> set (tagsToNote d). tn_tagId r = t_id T)"
        by (auto simp: rows1)
      with Cons.prems(5) nsnap have "\<exists>s \<in> set snaps. t_id T \<in> snapshotTagIds s" by auto
      then have "(\<exists>s \<in> set snaps. t_id T \<in> snapshotTagIds s) \<or>
         (\<exists>r \<in> set (tagsToNote d1). tn_tagId r = t_id T)" by blast
      from Cons.IH [OF T1 Cons.prems(2,3) cover1 this]
      show ?thesis unfolding step .
    qed
  qed
qed

lemma deleteMany_orphan_tags:
  assumes "n \<in> set (notes_table d)" and "n_id n \<in> set ids" and "n_accountId n = accountId"
    and "T \<in> set (noteTags d (n_id n))" and "t_accountId T = accountId" and "t_id T \<noteq> 0"
  shows "(T \<in> set (tag (deleteMany accountId ids d))) =
       (\<exists>r \<in> set (tagsToNote (deleteMany accountId ids d)). tn_tagId r = t_id T) \<and>
     (\<forall>r \<in> set (tagsToNote (deleteMany accountId ids d)). tn_noteId r \<noteq> n_id n)"
proof -
  define snaps where "snaps = findNotesWithRelations accountId ids d"
  define s where "s = \<lparr>nw_id = n_id n,
               nw_tags = map (includeTag d) (filter (\<lambda>r. tn_noteId r = n_id n) (tagsToNote d)),
               nw_attachments = filter (\<lambda>a. at_noteId a = n_id n) (attachments d)\<rparr>"
  have s: "s \<in> set snaps"
    using assms(1-3) by (force simp: snaps_def s_def findNotesWithRelations_def)
  have Ts: "t_id T \<in> snapshotTagIds s"
    using assms(4) by (simp add: snapshotTagIds_def s_def noteTags_def)
  have Td: "T \<in> set (tag d)" using assms(4) by (auto dest: noteTags_mem)
  have cover: "\<forall>r \<in> set (tagsToNote d). tn_tagId r = t_id T \<longrightarrow>
           (\<forall>s \<in> set snaps. tn_noteId r = nw_id s \<longrightarrow> t_id T \<in> snapshotTagIds s)"
  proof (intro ballI impI)
    fix r s'
    assume r: "r \<in> set (tagsToNote d)" "tn_tagId r = t_id T"
      and s': "s' \<in> set snaps" "tn_noteId r = nw_id s'"
    from r(2) Td have "includeTag d r \<noteq> None"
      by (auto simp: includeTag_def find_None_iff2)
    then obtain X where X: "includeTag d r = Some X" by blast
    then have "t_id X = t_id T" using r(2) by (auto dest: includeTag_Some)
    moreover from s' r(1) X have "Some X \<in> set (nw_tags s')"
      by (force simp: snaps_def findNotesWithRelations_def)
    ultimately show "t_id T \<in> snapshotTagIds s'"
      unfolding snapshotTagIds_def set_nonNull by (metis (mono_tags, lifting) image_eqI mem_Collect_eq)
  qed
  from s Ts have "(\<exists>s \<in> set snaps. t_id T \<in> snapshotTagIds s) \<or>
         (\<exists>r \<in> set (tagsToNote d). tn_tagId r = t_id T)" by blast
  from handleDeleteRelation_orphans [OF Td assms(5,6) cover this]
  have "(T \<in> set (tag (handleDeleteRelation accountId snaps d))) =
     (\<exists>r \<in> set (tagsToNote (handleDeleteRelation accountId snaps d)). tn_tagId r = t_id T)" .
  moreover have "\<forall>r \<in> set (tagsToNote (handleDeleteRelation accountId snaps d)). tn_noteId r \<noteq> n_id n"
    using s by (force simp: handleDeleteRelation_tagsToNote s_def)
  ultimately show ?thesis
    by (simp add: deleteMany_def Let_def snaps_def)
qed

text \<open>
  On the store of two notes, where note 1 has a tag shared with note 2 and a tag of its
  own, deleteMany of note 1 deletes the tag of its own only, and so does the update that
  drops it.
\<close>

lemma orphan_tags_run:
  "noteTags dbTags 1 = [tagShared, tagOwn] \<and> noteTags dbTags 2 = [tagShared] \<and>
   tag (snd (upsert helpers0 1 dropOwn dbTags)) = [tagShared] \<and>
   tag (deleteMany 1 [1] dbTags) = [tagShared] \<and>
   tagsToNote (deleteMany 1 [1] dbTags) = [\<lparr>tn_tagId = 1, tn_noteId = 2\<rparr>] \<and>
   tagOwn \<notin> set (tag (deleteMany 1 [1] dbTags)) \<and>
   tagShared \<in> set (tag (deleteMany 1 [1] dbTags)) \<and>
   tagOwn \<notin> set (tag (snd (upsert helpers0 1 dropOwn dbTags)))"
proof -
  have e: "upsert helpers0 1 dropOwn dbTags =
    (Inr (ReturnsNote (plainNote 1 1 (js ''#shared''))),
     dbTags\<lparr>notes_table := [plainNote 1 1 (js ''#shared''), plainNote 2 1 (js ''#shared'')],
        tag := [tagShared],
        tagsToNote := [\<lparr>tn_tagId = 1, tn_noteId = 1\<rparr>, \<lparr>tn_tagId = 1, tn_noteId = 2\<rparr>]\<rparr>)"
    by code_simp
  have dm: "tagsToNote (deleteMany 1 [1] dbTags) = [\<lparr>tn_tagId = 1, tn_noteId = 2\<rparr>]"
    by code_simp
  have dt: "tag (deleteMany 1 [1] dbTags) = [tagShared]"
    by code_simp
  have nt: "noteTags dbTags 1 = [tagShared, tagOwn]" "noteTags dbTags 2 = [tagShared]"
    by code_simp+
  have i: "in_id dropOwn = Some 1" "in_content dropOwn = Some (js ''#shared'')"
    by (simp_all add: dropOwn_def newNote_def)
  have ids: "t_id tagOwn = 2" "t_accountId tagOwn = 1" "t_id tagShared = 1" "t_accountId tagShared = 1"
    by (simp_all add: tagOwn_def tagShared_def)
  have n1: "plainNote 1 1 (js ''#shared #own'') \<in> set (notes_table dbTags)"
    "n_id (plainNote 1 1 (js ''#shared #own'')) = 1"
    "n_accountId (plainNote 1 1 (js ''#shared #own'')) = 1"
    by (simp_all add: dbTags_def plainNote_def)
  from upsert_orphan_tags [of dropOwn 1 "js ''#shared''" helpers0 1 dbTags
      "ReturnsNote (plainNote 1 1 (js ''#shared''))" "snd (upsert helpers0 1 dropOwn dbTags)" tagOwn]
  have a: "tagOwn \<notin> set (tag (snd (upsert helpers0 1 dropOwn dbTags)))"
    using i ids nt by (simp add: e)
  from deleteMany_orphan_tags [of "plainNote 1 1 (js ''#shared #own'')" dbTags "[1]" 1 tagOwn]
  have b: "tagOwn \<notin> set (tag (deleteMany 1 [1] dbTags))"
    using ids n1 nt by (simp add: dm)
  from deleteMany_orphan_tags [of "plainNote 1 1 (js ''#shared #own'')" dbTags "[1]" 1 tagShared]
  have c: "tagShared \<in> set (tag (deleteMany 1 [1] dbTags))"
    using ids n1 nt by (simp add: dm)
  from a b c nt dt dm e show ?thesis by simp
qed

text \<open>
  Claim C3 fails on the code, for upsert. Account 1 makes a note with the content
  \<^verbatim>\<open>#a<key>0 #a\<close>, the only note of the store, and then updates it with the content
  \<^verbatim>\<open>#a\<close>, which no longer has the hashtag of the tag \<^verbatim>\<open>a<key>0\<close>. The key of that
  tag, \<^verbatim>\<open>a<key>0<key>0\<close>, is cut into the name \<^verbatim>\<open>a\<close> and the parent 0, which is the
  other tag. The call returns the note; the tag whose hashtag was dropped is still
  linked to the note and still in the tag table, though no other note uses it, and the
  tag the content names is unlinked and deleted.
\<close>

theorem upsert_keeps_dropped_tag:
  "map n_id (notes_table afterCreate) = [1] \<and>
   noteTags afterCreate 1 =
     [\<lparr>t_id = 1, t_name = js ''a<key>0'', t_parent = 0, t_accountId = 1\<rparr>,
      \<lparr>t_id = 2, t_name = js ''a'', t_parent = 0, t_accountId = 1\<rparr>] \<and>
   in_content sameUpdate = Some (js ''#a'') \<and>
   extractHashtags (hashtagSource (Some (js ''#a''))) = [js ''#a''] \<and>
   upsert helpers0 1 sameUpdate afterCreate =
     (Inr (ReturnsNote (plainNote 1 1 (js ''#a''))), afterFirst) \<and>
   map n_id (notes_table afterFirst) = [1] \<and>
   tag afterFirst = [\<lparr>t_id = 1, t_name = js ''a<key>0'', t_parent = 0, t_accountId = 1\<rparr>] \<and>
   tagsToNote afterFirst = [\<lparr>tn_tagId = 1, tn_noteId = 1\<rparr>]"
proof -
  have c: "afterCreate =
     emptyDb\<lparr>notes_table := [plainNote 1 1 (js ''#a<key>0 #a'')],
        tag := [\<lparr>t_id = 1, t_name = js ''a<key>0'', t_parent = 0, t_accountId = 1\<rparr>,
                \<lparr>t_id = 2, t_name = js ''a'', t_parent = 0, t_accountId = 1\<rparr>],
        tagsToNote := [\<lparr>tn_tagId = 1, tn_noteId = 1\<rparr>, \<lparr>tn_tagId = 2, tn_noteId = 1\<rparr>],
        seq_notes := 2, seq_tag := 3\<rparr>"
    by code_simp
  have f: "upsert helpers0 1 sameUpdate
     (emptyDb\<lparr>notes_table := [plainNote 1 1 (js ''#a<key>0 #a'')],
        tag := [\<lparr>t_id = 1, t_name = js ''a<key>0'', t_parent = 0, t_accountId = 1\<rparr>,
                \<lparr>t_id = 2, t_name = js ''a'', t_parent = 0, t_accountId = 1\<rparr>],
        tagsToNote := [\<lparr>tn_tagId = 1, tn_noteId = 1\<rparr>, \<lparr>tn_tagId = 2, tn_noteId = 1\<rparr>],
        seq_notes := 2, seq_tag := 3\<rparr>) =
    (Inr (ReturnsNote (plainNote 1 1 (js ''#a''))),
     emptyDb\<lparr>notes_table := [plainNote 1 1 (js ''#a'')],
        tag := [\<lparr>t_id = 1, t_name = js ''a<key>0'', t_parent = 0, t_accountId = 1\<rparr>],
        tagsToNote := [\<lparr>tn_tagId = 1, tn_noteId = 1\<rparr>],
        seq_notes := 2, seq_tag := 3\<rparr>)"
    by code_simp
  have x: "extractHashtags (hashtagSource (Some (js ''#a''))) = [js ''#a'']"
    by code_simp
  have i: "in_content sameUpdate = Some (js ''#a'')"
    by (simp add: sameUpdate_def newNote_def)
  show ?thesis
    unfolding afterFirst_def c f snd_conv
    by (simp add: x i noteTags_def includeTag_def plainNote_def)
qed

theorem upsert_keeps_dropped_tag_witness:
  "map t_name (tag afterFirst) = [js ''a<key>0''] \<and>
   map tn_tagId (tagsToNote afterFirst) = [1]"
  using upsert_keeps_dropped_tag by simp

subsection \<open>The keys of the tags\<close>

text \<open>
  Claim C4 fails on the code. Account 1 creates a note with the content
  \<^verbatim>\<open>#a<key>0 #a\<close> and then updates it twice with the content \<^verbatim>\<open>#a\<close>. The key of
  the first tag, \<^verbatim>\<open>a<key>0<key>0\<close>, is cut into the name \<^verbatim>\<open>a\<close> and the parent 0,
  which is the tag \<^verbatim>\<open>a\<close>: the first update unlinks and deletes the tag the content
  names and keeps the link to the other. The second update creates the tag \<^verbatim>\<open>a\<close>
  again, links it, and throws a TypeError where the key no longer finds a tag. The tags
  of the note after the second call are not those after the first.
\<close>

theorem upsert_same_input_twice_differs:
  "fst (upsert helpers0 1 (newNote (js ''#a<key>0 #a'')) emptyDb) =
     Inr (ReturnsNote (plainNote 1 1 (js ''#a<key>0 #a''))) \<and>
   map t_name (noteTags afterCreate 1) = [js ''a<key>0'', js ''a''] \<and>
   fst (upsert helpers0 1 sameUpdate afterCreate) = Inr (ReturnsNote (plainNote 1 1 (js ''#a''))) \<and>
   map t_id (noteTags afterFirst 1) = [1] \<and>
   map t_name (noteTags afterFirst 1) = [js ''a<key>0''] \<and>
   fst (upsert helpers0 1 sameUpdate afterFirst) = Inl TypeError \<and>
   map t_id (noteTags afterSecond 1) = [1, 3] \<and>
   map t_name (noteTags afterSecond 1) = [js ''a<key>0'', js ''a'']"
proof -
  have c: "upsert helpers0 1 (newNote (js ''#a<key>0 #a'')) emptyDb =
    (Inr (ReturnsNote (plainNote 1 1 (js ''#a<key>0 #a''))),
     emptyDb\<lparr>notes_table := [plainNote 1 1 (js ''#a<key>0 #a'')],
        tag := [\<lparr>t_id = 1, t_name = js ''a<key>0'', t_parent = 0, t_accountId = 1\<rparr>,
                \<lparr>t_id = 2, t_name = js ''a'', t_parent = 0, t_accountId = 1\<rparr>],
        tagsToNote := [\<lparr>tn_tagId = 1, tn_noteId = 1\<rparr>, \<lparr>tn_tagId = 2, tn_noteId = 1\<rparr>],
        seq_notes := 2, seq_tag := 3\<rparr>)"
    by code_simp
  have f: "upsert helpers0 1 sameUpdate
     (emptyDb\<lparr>notes_table := [plainNote 1 1 (js ''#a<key>0 #a'')],
        tag := [\<lparr>t_id = 1, t_name = js ''a<key>0'', t_parent = 0, t_accountId = 1\<rparr>,
                \<lparr>t_id = 2, t_name = js ''a'', t_parent = 0, t_accountId = 1\<rparr>],
        tagsToNote := [\<lparr>tn_tagId = 1, tn_noteId = 1\<rparr>, \<lparr>tn_tagId = 2, tn_noteId = 1\<rparr>],
        seq_notes := 2, seq_tag := 3\<rparr>) =
    (Inr (ReturnsNote (plainNote 1 1 (js ''#a''))),
     emptyDb\<lparr>notes_table := [plainNote 1 1 (js ''#a'')],
        tag := [\<lparr>t_id = 1, t_name = js ''a<key>0'', t_parent = 0, t_accountId = 1\<rparr>],
        tagsToNote := [\<lparr>tn_tagId = 1, tn_noteId = 1\<rparr>],
        seq_notes := 2, seq_tag := 3\<rparr>)"
    by code_simp
  have s: "upsert helpers0 1 sameUpdate
     (emptyDb\<lparr>notes_table := [plainNote 1 1 (js ''#a'')],
        tag := [\<lparr>t_id = 1, t_name = js ''a<key>0'', t_parent = 0, t_accountId = 1\<rparr>],
        tagsToNote := [\<lparr>tn_tagId = 1, tn_noteId = 1\<rparr>],
        seq_notes := 2, seq_tag := 3\<rparr>) =
    (Inl TypeError,
     emptyDb\<lparr>notes_table := [plainNote 1 1 (js ''#a'')],
        tag := [\<lparr>t_id = 1, t_name = js ''a<key>0'', t_parent = 0, t_accountId = 1\<rparr>,
                \<lparr>t_id = 3, t_name = js ''a'', t_parent = 0, t_accountId = 1\<rparr>],
        tagsToNote := [\<lparr>tn_tagId = 1, tn_noteId = 1\<rparr>, \<lparr>tn_tagId = 3, tn_noteId = 1\<rparr>],
        seq_notes := 2, seq_tag := 4\<rparr>)"
    by code_simp
  show ?thesis
    unfolding afterSecond_def afterFirst_def afterCreate_def c f s snd_conv fst_conv
    by (simp add: noteTags_def includeTag_def)
qed

theorem upsert_same_input_twice_differs_witness:
  "set (map t_id (noteTags afterFirst 1)) \<noteq> set (map t_id (noteTags afterSecond 1))"
  using upsert_same_input_twice_differs by simp

lemma addReference_validates:
  "addReference accountId fromNoteId toNoteId d =
     (if find (\<lambda>n. n_id n = fromNoteId \<and> n_accountId n = accountId) (notes_table d) = None \<or>
         find (\<lambda>n. n_id n = toNoteId \<and> n_accountId n = accountId) (notes_table d) = None
      then (Inl NoteNotFound, d)
      else (Inr \<lparr>nr_id = seq_noteReference d, nr_fromNoteId = fromNoteId, nr_toNoteId = toNoteId\<rparr>,
            d\<lparr>noteReference := noteReference d @
                 [\<lparr>nr_id = seq_noteReference d, nr_fromNoteId = fromNoteId, nr_toNoteId = toNoteId\<rparr>],
              seq_noteReference := seq_noteReference d + 1\<rparr>))"
  by (simp add: addReference_def insertNoteReference_def noteReference_create_def Let_def)

subsection \<open>References to the notes of another account\<close>

text \<open>
  Claim C8 fails on the code. \<open>addReference\<close> refuses a reference from a note of
  account 1 to note 2, which belongs to account 2; upsert, called by account 1 with the
  reference 2, creates that row.
\<close>

theorem upsert_references_foreign_note:
  "map n_accountId (filter (\<lambda>n. n_id n = 2) (notes_table dbTwoAccounts)) = [2] \<and>
   addReference 1 1 2 dbTwoAccounts = (Inl NoteNotFound, dbTwoAccounts) \<and>
   fst (upsert helpers0 1 referForeign dbTwoAccounts) = Inr (ReturnsNote (plainNote 1 1 (js ''mine''))) \<and>
   noteReference (snd (upsert helpers0 1 referForeign dbTwoAccounts)) =
     [\<lparr>nr_id = 1, nr_fromNoteId = 1, nr_toNoteId = 2\<rparr>]"
proof -
  have e: "upsert helpers0 1 referForeign dbTwoAccounts =
    (Inr (ReturnsNote (plainNote 1 1 (js ''mine''))),
     dbTwoAccounts\<lparr>noteReference := [\<lparr>nr_id = 1, nr_fromNoteId = 1, nr_toNoteId = 2\<rparr>],
        seq_noteReference := 2\<rparr>)"
    by code_simp
  have a: "addReference 1 1 2 dbTwoAccounts = (Inl NoteNotFound, dbTwoAccounts)"
    by (simp add: addReference_validates dbTwoAccounts_def plainNote_def)
  have n: "map n_accountId (filter (\<lambda>n. n_id n = 2) (notes_table dbTwoAccounts)) = [2]"
    by (simp add: dbTwoAccounts_def plainNote_def)
  from e a n show ?thesis by simp
qed

theorem upsert_references_foreign_note_witness:
  "referencesOf (snd (upsert helpers0 1 referForeign dbTwoAccounts)) 1 = [2]"
  using upsert_references_foreign_note by (simp add: referencesOf_def)

end
